theory Spec2Isabelle
  imports Complex_Main "HOL-Library.Log_Nat"
begin

section \<open>Go's float64, as far as SizeSuffix uses it\<close>

text \<open>
  A float64 is an exact rational, one of the two infinities, or NaN. Negative zero is
  identified with zero: the code below only compares with \<open>0\<close>, multiplies and converts
  to an integer, and all three treat the two zeros alike.
\<close>

datatype float64 = Finite rat | PosInf | NegInf | NaN

definition pow2 :: "int \<Rightarrow> rat" where
  "pow2 e = 2 powi e"

text \<open>\<open>ilog2 q\<close> is the binary exponent of a positive rational: \<open>2^e \<le> q < 2^(e+1)\<close>.\<close>

definition ilog2 :: "rat \<Rightarrow> int" where
  "ilog2 q = (let (a, b) = quotient_of q; g = bitlen a - bitlen b
              in if pow2 g \<le> q then g else g - 1)"

definition round_half_even :: "rat \<Rightarrow> int" where
  "round_half_even q =
     (let f = \<lfloor>q\<rfloor>; d = q - of_int f
      in if d < 1 / 2 then f else if 1 / 2 < d then f + 1
         else if even f then f else f + 1)"

text \<open>
  IEEE 754 binary64 rounding to nearest, ties to even: 53 significant bits, the least
  normal exponent \<open>-1022\<close> (below it the spacing stays \<open>2^-1074\<close>), and overflow to an
  infinity once the rounded magnitude reaches \<open>2^1024\<close>.
\<close>

definition float64_round :: "rat \<Rightarrow> float64" where
  "float64_round q =
     (if q = 0 then Finite 0
      else let e = max (ilog2 \<bar>q\<bar>) (- 1022);
               ulp = pow2 (e - 52);
               r = of_int (round_half_even (q / ulp)) * ulp
           in if pow2 1024 \<le> \<bar>r\<bar> then (if q < 0 then NegInf else PosInf)
              else Finite r)"

text \<open>The conversion \<open>float64(x)\<close> of an integer.\<close>

definition float64_of_int :: "int \<Rightarrow> float64" where
  "float64_of_int x = float64_round (of_int x)"

text \<open>The comparison \<open>a < b\<close>: false as soon as one side is NaN.\<close>

fun float64_less :: "float64 \<Rightarrow> float64 \<Rightarrow> bool" where
  "float64_less NaN _ = False"
| "float64_less _ NaN = False"
| "float64_less (Finite a) (Finite b) = (a < b)"
| "float64_less NegInf b = (b \<noteq> NegInf)"
| "float64_less a PosInf = (a \<noteq> PosInf)"
| "float64_less _ _ = False"

text \<open>The comparison \<open>a == b\<close>: NaN equals nothing.\<close>

definition float64_eq :: "float64 \<Rightarrow> float64 \<Rightarrow> bool" where
  "float64_eq a b = (a \<noteq> NaN \<and> b \<noteq> NaN \<and> a = b)"

text \<open>The product \<open>a * b\<close>.\<close>

fun float64_mul :: "float64 \<Rightarrow> float64 \<Rightarrow> float64" where
  "float64_mul (Finite a) (Finite b) = float64_round (a * b)"
| "float64_mul NaN _ = NaN"
| "float64_mul _ NaN = NaN"
| "float64_mul (Finite a) b =
     (if a = 0 then NaN else if (0 < a) = (b = PosInf) then PosInf else NegInf)"
| "float64_mul a (Finite b) =
     (if b = 0 then NaN else if (0 < b) = (a = PosInf) then PosInf else NegInf)"
| "float64_mul a b = (if a = b then PosInf else NegInf)"

text \<open>The quotient \<open>a / b\<close>.\<close>

fun float64_div :: "float64 \<Rightarrow> float64 \<Rightarrow> float64" where
  "float64_div (Finite a) (Finite b) =
     (if b = 0 then (if a = 0 then NaN else if 0 < a then PosInf else NegInf)
      else float64_round (a / b))"
| "float64_div NaN _ = NaN"
| "float64_div _ NaN = NaN"
| "float64_div (Finite a) _ = Finite 0"
| "float64_div a (Finite b) = (if (0 \<le> b) = (a = PosInf) then PosInf else NegInf)"
| "float64_div _ _ = NaN"

text \<open>\<open>math.Floor\<close>: the floor of a float64 is again a float64.\<close>

fun math_Floor :: "float64 \<Rightarrow> float64" where
  "math_Floor (Finite q) = Finite (of_int \<lfloor>q\<rfloor>)"
| "math_Floor f = f"

text \<open>
  The conversion \<open>int64(v)\<close> of a float64, as in \<open>SizeSuffix(value)\<close>: the fraction is
  discarded (truncation towards zero). When the truncated value is not an int64, or
  \<open>v\<close> is an infinity or NaN, the Go specification leaves the result to the
  implementation; \<open>impl\<close> is that choice.
\<close>

definition trunc :: "rat \<Rightarrow> int" where
  "trunc q = (if 0 \<le> q then \<lfloor>q\<rfloor> else \<lceil>q\<rceil>)"

definition int64_of_float64 :: "(float64 \<Rightarrow> int) \<Rightarrow> float64 \<Rightarrow> int" where
  "int64_of_float64 impl v =
     (case v of
        Finite q \<Rightarrow>
          if - (2 ^ 63) \<le> trunc q \<and> trunc q < 2 ^ 63 then trunc q else impl v
      | _ \<Rightarrow> impl v)"

section \<open>The library calls: strings.ToLower, strconv.ParseFloat, fmt.Sprintf\<close>

text \<open>
  A Go string is its bytes. \<open>ToLower\<close> is only compared with \<open>off\<close> and with weekday
  names, and no character outside ASCII has an ASCII lower case other than the Kelvin
  sign, whose lower case \<open>k\<close> occurs in none of them; so lowering the ASCII capitals
  decides the same comparisons.
\<close>

definition lower :: "char \<Rightarrow> char" where
  "lower c =
     (case map_of (zip ''ABCDEFGHIJKLMNOPQRSTUVWXYZ'' ''abcdefghijklmnopqrstuvwxyz'') c of
        Some l \<Rightarrow> l
      | None \<Rightarrow> c)"

definition ToLower :: "string \<Rightarrow> string" where
  "ToLower s = map lower s"

datatype error =
    ErrEmptyString
  | ErrBadSuffix char
  | ErrSyntax string
  | ErrRange string
  | ErrNegative string
  | ErrJSON
  | ErrMalformedDay string
  | ErrMalformedTime string
  | ErrMalformedRatePair string

definition is_digit :: "char \<Rightarrow> bool" where
  "is_digit c = (c \<in> set ''0123456789'')"

definition is_hexdigit :: "char \<Rightarrow> bool" where
  "is_hexdigit c = (c \<in> set ''0123456789abcdefABCDEF'')"

definition digit_val :: "char \<Rightarrow> nat" where
  "digit_val c =
     (if is_digit c then of_char c - 48
      else if c \<in> set ''abcdef'' then of_char c - 87
      else of_char c - 55)"

definition digits_val :: "nat \<Rightarrow> string \<Rightarrow> nat" where
  "digits_val base s = foldl (\<lambda>a c. base * a + digit_val c) 0 s"

fun strip_sign :: "string \<Rightarrow> bool \<times> string" where
  "strip_sign [] = (False, [])"
| "strip_sign (c # cs) =
     (if c = CHR ''+'' then (False, cs)
      else if c = CHR ''-'' then (True, cs)
      else (False, c # cs))"

text \<open>
  \<open>special\<close>: the optionally signed \<open>inf\<close> and \<open>infinity\<close>, and the unsigned \<open>nan\<close>, in
  any case.
\<close>

definition special :: "string \<Rightarrow> float64 option" where
  "special s =
     (let (neg, r) = strip_sign s
      in if ToLower r = ''inf'' \<or> ToLower r = ''infinity''
         then Some (if neg then NegInf else PosInf)
         else if ToLower s = ''nan'' then Some NaN
         else None)"

text \<open>
  \<open>underscoreOK\<close>: an underscore may stand only between digits, or between a base
  prefix and a digit. \<open>saw\<close> is the kind of the last character read.
\<close>

datatype saw = SawStart | SawDigit | SawUnderscore | SawOther

fun underscore_scan :: "bool \<Rightarrow> saw \<Rightarrow> string \<Rightarrow> bool" where
  "underscore_scan hex sw [] = (sw \<noteq> SawUnderscore)"
| "underscore_scan hex sw (c # cs) =
     (if is_digit c \<or> (hex \<and> is_hexdigit c) then underscore_scan hex SawDigit cs
      else if c = CHR ''_'' then (sw = SawDigit \<and> underscore_scan hex SawUnderscore cs)
      else (sw \<noteq> SawUnderscore \<and> underscore_scan hex SawOther cs))"

definition underscoreOK :: "string \<Rightarrow> bool" where
  "underscoreOK s =
     (let r = snd (strip_sign s)
      in if 2 \<le> length r \<and> hd r = CHR ''0'' \<and> lower (r ! 1) \<in> set ''box''
         then underscore_scan (lower (r ! 1) = CHR ''x'') SawDigit (drop 2 r)
         else underscore_scan False SawStart r)"

text \<open>
  The mantissa: digits with at most one point among them, and at least one digit.
  The result is the digits before the point, those after it, and the rest.
\<close>

definition read_mantissa :: "(char \<Rightarrow> bool) \<Rightarrow> string \<Rightarrow> (string \<times> string \<times> string) option" where
  "read_mantissa isd s =
     (let ip = takeWhile isd s; r1 = dropWhile isd s;
          (fp, r2) = (case r1 of
                        [] \<Rightarrow> ([], [])
                      | c # cs \<Rightarrow> if c = CHR ''.'' then (takeWhile isd cs, dropWhile isd cs)
                                  else ([], r1))
      in if ip = [] \<and> fp = [] then None else Some (ip, fp, r2))"

text \<open>
  The exponent part \<open>r\<close> left after the mantissa: the exponent character, an optional
  sign and at least one decimal digit, up to the end of the string.
\<close>

definition read_exponent :: "char \<Rightarrow> string \<Rightarrow> int option" where
  "read_exponent expChar r =
     (case r of
        [] \<Rightarrow> None
      | c # cs \<Rightarrow>
          if lower c = expChar then
            (let (neg, ds) = strip_sign cs
             in if ds \<noteq> [] \<and> list_all is_digit ds
                then Some ((if neg then - 1 else 1) * int (digits_val 10 ds))
                else None)
          else None)"

text \<open>
  \<open>readFloat\<close>: the exact value of a decimal literal
  \<open>[sign] digits [. digits] [e [sign] digits]\<close> or of a hexadecimal literal
  \<open>[sign] 0x hexdigits [. hexdigits] p [sign] digits\<close>, whose exponent is binary and
  required.
\<close>

definition readFloat :: "string \<Rightarrow> rat option" where
  "readFloat s =
     (let (neg, r) = strip_sign s;
          sgn = (if neg then - 1 else 1 :: rat)
      in if 2 \<le> length r \<and> hd r = CHR ''0'' \<and> lower (r ! 1) = CHR ''x'' then
           (case read_mantissa is_hexdigit (drop 2 r) of
              None \<Rightarrow> None
            | Some (ip, fp, r2) \<Rightarrow>
                (case read_exponent CHR ''p'' r2 of
                   None \<Rightarrow> None
                 | Some e \<Rightarrow>
                     Some (sgn * of_nat (digits_val 16 (ip @ fp))
                               * pow2 (e - 4 * int (length fp)))))
         else
           (case read_mantissa is_digit r of
              None \<Rightarrow> None
            | Some (ip, fp, r2) \<Rightarrow>
                (case (if r2 = [] then Some 0 else read_exponent CHR ''e'' r2) of
                   None \<Rightarrow> None
                 | Some e \<Rightarrow>
                     Some (sgn * of_nat (digits_val 10 (ip @ fp))
                               * 10 powi (e - int (length fp))))))"

text \<open>
  \<open>strconv.ParseFloat(s, 64)\<close>: the special values, else the literal rounded to the
  nearest float64; a syntax error when \<open>s\<close> is not a literal, a range error when the
  rounded value overflows. Underscores are skipped where \<open>underscoreOK\<close> allows them.
\<close>

definition ParseFloat :: "string \<Rightarrow> error + float64" where
  "ParseFloat s =
     (case special s of
        Some f \<Rightarrow> Inr f
      | None \<Rightarrow>
          if CHR ''_'' \<in> set s \<and> \<not> underscoreOK s then Inl (ErrSyntax s)
          else (case readFloat (filter (\<lambda>c. c \<noteq> CHR ''_'') s) of
                  None \<Rightarrow> Inl (ErrSyntax s)
                | Some q \<Rightarrow>
                    (case float64_round q of
                       Finite r \<Rightarrow> Inr (Finite r)
                     | _ \<Rightarrow> Inl (ErrRange s))))"

text \<open>The decimal digits of a natural number.\<close>

definition digit_char :: "nat \<Rightarrow> char" where
  "digit_char d = ''0123456789'' ! d"

fun show_nat :: "nat \<Rightarrow> string" where
  "show_nat n =
     (if n < 10 then [digit_char n]
      else show_nat (n div 10) @ [digit_char (n mod 10)])"

declare show_nat.simps [simp del]

text \<open>
  \<open>fmt.Sprintf("%.<prec>f", v)\<close>: the exact value of \<open>v\<close> rounded to \<open>prec\<close> decimals,
  ties to even; the fraction is padded with zeros to \<open>prec\<close> digits.
\<close>

definition Sprintf_f :: "nat \<Rightarrow> float64 \<Rightarrow> string" where
  "Sprintf_f prec v =
     (case v of
        Finite q \<Rightarrow>
          (let n = nat (round_half_even (\<bar>q\<bar> * 10 ^ prec));
               ip = show_nat (n div 10 ^ prec);
               fp = show_nat (n mod 10 ^ prec)
           in (if q < 0 then ''-'' else '''') @ ip @
              (if prec = 0 then ''''
               else ''.'' @ replicate (prec - length fp) CHR ''0'' @ fp))
      | PosInf \<Rightarrow> ''+Inf''
      | NegInf \<Rightarrow> ''-Inf''
      | NaN \<Rightarrow> ''NaN'')"

section \<open>SizeSuffix (src/fs/sizesuffix.go)\<close>

text \<open>\<open>type SizeSuffix int64\<close>, and the multipliers \<open>1 << (iota * 10)\<close>.\<close>

type_synonym SizeSuffix = int

definition Byte :: SizeSuffix where "Byte = 1"
definition KibiByte :: SizeSuffix where "KibiByte = 2 ^ 10"
definition MebiByte :: SizeSuffix where "MebiByte = 2 ^ 20"
definition GibiByte :: SizeSuffix where "GibiByte = 2 ^ 30"
definition TebiByte :: SizeSuffix where "TebiByte = 2 ^ 40"
definition PebiByte :: SizeSuffix where "PebiByte = 2 ^ 50"
definition ExbiByte :: SizeSuffix where "ExbiByte = 2 ^ 60"

text \<open>The switch of \<open>string()\<close> after its two early returns: the scaled value and the suffix.\<close>

definition string_scaled :: "SizeSuffix \<Rightarrow> float64 \<times> string" where
  "string_scaled x =
     (if x < KibiByte then (float64_of_int x, '''')
      else if x < MebiByte then (float64_div (float64_of_int x) (float64_of_int KibiByte), ''Ki'')
      else if x < GibiByte then (float64_div (float64_of_int x) (float64_of_int MebiByte), ''Mi'')
      else if x < TebiByte then (float64_div (float64_of_int x) (float64_of_int GibiByte), ''Gi'')
      else if x < PebiByte then (float64_div (float64_of_int x) (float64_of_int TebiByte), ''Ti'')
      else if x < ExbiByte then (float64_div (float64_of_int x) (float64_of_int PebiByte), ''Pi'')
      else (float64_div (float64_of_int x) (float64_of_int ExbiByte), ''Ei''))"

definition SizeSuffix_string :: "SizeSuffix \<Rightarrow> string \<times> string" where
  "SizeSuffix_string x =
     (if x < 0 then (''off'', '''')
      else if x = 0 then (''0'', '''')
      else let (scaled, suffix) = string_scaled x
           in if float64_eq (math_Floor scaled) scaled then (Sprintf_f 0 scaled, suffix)
              else (Sprintf_f 3 scaled, suffix))"

definition SizeSuffix_String :: "SizeSuffix \<Rightarrow> string" where
  "SizeSuffix_String x = (let (val, suffix) = SizeSuffix_string x in val @ suffix)"

definition symbolMultiplier :: "char \<Rightarrow> bool \<times> float64" where
  "symbolMultiplier s =
     (if s \<in> set ''kK'' then (True, float64_of_int KibiByte)
      else if s \<in> set ''mM'' then (True, float64_of_int MebiByte)
      else if s \<in> set ''gG'' then (True, float64_of_int GibiByte)
      else if s \<in> set ''tT'' then (True, float64_of_int TebiByte)
      else if s \<in> set ''pP'' then (True, float64_of_int PebiByte)
      else if s \<in> set ''eE'' then (True, float64_of_int ExbiByte)
      else (False, float64_of_int Byte))"

text \<open>
  The switch of \<open>Set\<close> on the last byte of a non-empty \<open>s\<close>: the length of the suffix
  and the multiplier, or the bad-suffix error.
\<close>

definition Set_switch :: "string \<Rightarrow> error + (nat \<times> float64)" where
  "Set_switch s =
     (let suffix = s ! (length s - 1)
      in if suffix \<in> set ''0123456789.'' then Inr (0, float64_of_int KibiByte)
         else if suffix \<in> set ''bB'' then
           (if length s > 2 \<and> s ! (length s - 2) = CHR ''i'' then
              (let suffix = s ! (length s - 3);
                   (unitPrefix, multiplier) = symbolMultiplier suffix
               in if \<not> unitPrefix then Inl (ErrBadSuffix suffix) else Inr (3, multiplier))
            else Inr (1, float64_of_int Byte))
         else if suffix \<in> set ''iI'' then
           (if length s > 1 then
              (let suffix = s ! (length s - 2);
                   (unitPrefix, multiplier) = symbolMultiplier suffix
               in if \<not> unitPrefix then Inl (ErrBadSuffix suffix) else Inr (2, multiplier))
            else Inl (ErrBadSuffix suffix))
         else
           (let (unitPrefix, multiplier) = symbolMultiplier suffix
            in if \<not> unitPrefix then Inl (ErrBadSuffix suffix) else Inr (1, multiplier)))"

text \<open>
  The part of \<open>Set\<close> after the switch: parse the number, refuse a negative one, scale
  and convert. \<open>x\<close> is the receiver before the call; the result is the receiver
  after it and the error returned.
\<close>

definition Set_number :: "(float64 \<Rightarrow> int) \<Rightarrow> SizeSuffix \<Rightarrow> string \<Rightarrow> float64 \<Rightarrow> SizeSuffix \<times> error option" where
  "Set_number impl x s multiplier =
     (case ParseFloat s of
        Inl err \<Rightarrow> (x, Some err)
      | Inr v \<Rightarrow>
          if float64_less v (Finite 0) then (x, Some (ErrNegative s))
          else (int64_of_float64 impl (float64_mul v multiplier), None))"

definition SizeSuffix_Set :: "(float64 \<Rightarrow> int) \<Rightarrow> SizeSuffix \<Rightarrow> string \<Rightarrow> SizeSuffix \<times> error option" where
  "SizeSuffix_Set impl x s =
     (if length s = 0 then (x, Some ErrEmptyString)
      else if ToLower s = ''off'' then (- 1, None)
      else case Set_switch s of
             Inl err \<Rightarrow> (x, Some err)
           | Inr (suffixLen, multiplier) \<Rightarrow>
               Set_number impl x (take (length s - suffixLen) s) multiplier)"

section \<open>The other SizeSuffix in the repository (src/unnamed/part\_000)\<close>

definition string_scaled_part000 :: "SizeSuffix \<Rightarrow> float64 \<times> string" where
  "string_scaled_part000 x =
     (if x < KibiByte then (float64_of_int x, '''')
      else if x < MebiByte then (float64_div (float64_of_int x) (float64_of_int KibiByte), ''K'')
      else if x < GibiByte then (float64_div (float64_of_int x) (float64_of_int MebiByte), ''M'')
      else if x < TebiByte then (float64_div (float64_of_int x) (float64_of_int GibiByte), ''G'')
      else if x < PebiByte then (float64_div (float64_of_int x) (float64_of_int TebiByte), ''T'')
      else if x < ExbiByte then (float64_div (float64_of_int x) (float64_of_int PebiByte), ''P'')
      else (float64_div (float64_of_int x) (float64_of_int ExbiByte), ''E''))"

definition SizeSuffix_string_part000 :: "SizeSuffix \<Rightarrow> string \<times> string" where
  "SizeSuffix_string_part000 x =
     (if x < 0 then (''off'', '''')
      else if x = 0 then (''0'', '''')
      else let (scaled, suffix) = string_scaled_part000 x
           in if float64_eq (math_Floor scaled) scaled then (Sprintf_f 0 scaled, suffix)
              else (Sprintf_f 3 scaled, suffix))"

definition SizeSuffix_String_part000 :: "SizeSuffix \<Rightarrow> string" where
  "SizeSuffix_String_part000 x =
     (let (val, suffix) = SizeSuffix_string_part000 x in val @ suffix)"

definition Set_switch_part000 :: "string \<Rightarrow> error + (nat \<times> float64)" where
  "Set_switch_part000 s =
     (let suffix = s ! (length s - 1)
      in if suffix \<in> set ''0123456789.'' then Inr (0, float64_of_int KibiByte)
         else if suffix \<in> set ''bB'' then Inr (1, float64_of_int Byte)
         else if suffix \<in> set ''kK'' then Inr (1, float64_of_int KibiByte)
         else if suffix \<in> set ''mM'' then Inr (1, float64_of_int MebiByte)
         else if suffix \<in> set ''gG'' then Inr (1, float64_of_int GibiByte)
         else if suffix \<in> set ''tT'' then Inr (1, float64_of_int TebiByte)
         else if suffix \<in> set ''pP'' then Inr (1, float64_of_int PebiByte)
         else if suffix \<in> set ''eE'' then Inr (1, float64_of_int ExbiByte)
         else Inl (ErrBadSuffix suffix))"

definition SizeSuffix_Set_part000 :: "(float64 \<Rightarrow> int) \<Rightarrow> SizeSuffix \<Rightarrow> string \<Rightarrow> SizeSuffix \<times> error option" where
  "SizeSuffix_Set_part000 impl x s =
     (if length s = 0 then (x, Some ErrEmptyString)
      else if ToLower s = ''off'' then (- 1, None)
      else case Set_switch_part000 s of
             Inl err \<Rightarrow> (x, Some err)
           | Inr (suffixLen, multiplier) \<Rightarrow>
               Set_number impl x (take (length s - suffixLen) s) multiplier)"

section \<open>JSON (src/fs/sizesuffix.go)\<close>

text \<open>
  The bytes handed to \<open>UnmarshalJSON\<close>, by what \<open>encoding/json\<close> reads in them: a string
  literal (with its decoded text), an integer literal, \<open>null\<close>, or anything else (a
  number with a fraction or an exponent, a boolean, an array, an object, or text that
  is not JSON).
\<close>

datatype json = JSONString string | JSONInteger int | JSONNull | JSONOther

text \<open>
  \<open>json.Unmarshal(in, &s)\<close> for \<open>var s string\<close>, and \<open>json.Unmarshal(in, &i)\<close> for
  \<open>var i int64\<close>: \<open>null\<close> leaves the variable at its zero value and is no error; an
  integer literal outside int64 is an error.
\<close>

definition json_Unmarshal_string :: "json \<Rightarrow> error + string" where
  "json_Unmarshal_string inp =
     (case inp of JSONString s \<Rightarrow> Inr s | JSONNull \<Rightarrow> Inr [] | _ \<Rightarrow> Inl ErrJSON)"

definition json_Unmarshal_int64 :: "json \<Rightarrow> error + int" where
  "json_Unmarshal_int64 inp =
     (case inp of
        JSONInteger i \<Rightarrow> if - (2 ^ 63) \<le> i \<and> i < 2 ^ 63 then Inr i else Inl ErrJSON
      | JSONNull \<Rightarrow> Inr 0
      | _ \<Rightarrow> Inl ErrJSON)"

text \<open>
  \<open>UnmarshalJSONFlag\<close>: \<open>xSet\<close> is the flag's \<open>Set\<close> method and \<open>setInt\<close> the callback;
  both act on the receiver \<open>x\<close>, which is passed through.
\<close>

definition UnmarshalJSONFlag ::
  "json \<Rightarrow> ('x \<Rightarrow> string \<Rightarrow> 'x \<times> error option) \<Rightarrow> ('x \<Rightarrow> int \<Rightarrow> 'x \<times> error option) \<Rightarrow> 'x
     \<Rightarrow> 'x \<times> error option" where
  "UnmarshalJSONFlag inp xSet setInt x =
     (case json_Unmarshal_string inp of
        Inr s \<Rightarrow> xSet x s
      | Inl _ \<Rightarrow>
          (case json_Unmarshal_int64 inp of
             Inl err \<Rightarrow> (x, Some err)
           | Inr i \<Rightarrow> setInt x i))"

definition SizeSuffix_UnmarshalJSON :: "(float64 \<Rightarrow> int) \<Rightarrow> SizeSuffix \<Rightarrow> json \<Rightarrow> SizeSuffix \<times> error option" where
  "SizeSuffix_UnmarshalJSON impl x inp =
     UnmarshalJSONFlag inp (SizeSuffix_Set impl) (\<lambda>x i. (i, None)) x"

text \<open>
  \<open>json.Marshal\<close> of a SizeSuffix. The type is declared \<open>type SizeSuffix int64\<close> and has
  an \<open>UnmarshalJSON\<close> method but neither \<open>MarshalJSON\<close> nor \<open>MarshalText\<close>; for such a
  type \<open>encoding/json\<close> writes the integer as a JSON number.
\<close>

definition SizeSuffix_Marshal :: "SizeSuffix \<Rightarrow> json" where
  "SizeSuffix_Marshal x = JSONInteger x"

section \<open>The weekly schedule\<close>

text \<open>
  The schedule's implementation is not among the repository's files; only its tests
  are (\<open>TestBwTimetableSet\<close>, \<open>TestBwTimetableLimitAt\<close>). The definitions of this section
  follow the specification, sections 3, 4.2 and 4.3.
\<close>

text \<open>Modelled from the spec: ScheduleSlot (the slot type of the missing schedule file).\<close>

record ScheduleSlot =
  dayOfWeek :: nat
  timeOfDay :: nat
  tx :: SizeSuffix
  rx :: SizeSuffix

type_synonym WeeklySchedule = "ScheduleSlot list"

fun split_on :: "(char \<Rightarrow> bool) \<Rightarrow> string \<Rightarrow> string list" where
  "split_on sep [] = [[]]"
| "split_on sep (c # cs) =
     (if sep c then [] # split_on sep cs
      else (case split_on sep cs of [] \<Rightarrow> [[c]] | w # ws \<Rightarrow> (c # w) # ws))"

definition is_space :: "char \<Rightarrow> bool" where
  "is_space c = (c \<in> set [CHR 0x20, CHR 0x09, CHR 0x0A, CHR 0x0D])"

text \<open>Modelled from the spec: the tokens of a schedule text, separated by whitespace.\<close>

definition tokens :: "string \<Rightarrow> string list" where
  "tokens s = filter (\<lambda>w. w \<noteq> []) (split_on is_space s)"

text \<open>Modelled from the spec: DAY, a three-letter weekday in any case, to 0..6 from Sunday.\<close>

definition parse_day :: "string \<Rightarrow> error + nat" where
  "parse_day d =
     (let l = ToLower d
      in if l = ''sun'' then Inr 0 else if l = ''mon'' then Inr 1
         else if l = ''tue'' then Inr 2 else if l = ''wed'' then Inr 3
         else if l = ''thu'' then Inr 4 else if l = ''fri'' then Inr 5
         else if l = ''sat'' then Inr 6 else Inl (ErrMalformedDay d))"

definition parse_int :: "string \<Rightarrow> nat option" where
  "parse_int s = (if s \<noteq> [] \<and> list_all is_digit s then Some (digits_val 10 s) else None)"

text \<open>
  Modelled from the spec: HH:MM, both plain integers, the hour below 24 and the minute
  below 60, encoded as HH*100+MM.
\<close>

definition parse_time :: "string \<Rightarrow> error + nat" where
  "parse_time t =
     (case split_on (\<lambda>c. c = CHR '':'') t of
        [hh, mm] \<Rightarrow>
          (case (parse_int hh, parse_int mm) of
             (Some h, Some m) \<Rightarrow>
               if h < 24 \<and> m < 60 then Inr (h * 100 + m) else Inl (ErrMalformedTime t)
           | _ \<Rightarrow> Inl (ErrMalformedTime t))
      | _ \<Rightarrow> Inl (ErrMalformedTime t))"

text \<open>Modelled from the spec: RATE, a SizeValue literal parsed as in section 4.1.\<close>

definition parse_rate :: "(float64 \<Rightarrow> int) \<Rightarrow> string \<Rightarrow> error + SizeSuffix" where
  "parse_rate impl r =
     (case SizeSuffix_Set impl 0 r of (v, None) \<Rightarrow> Inr v | (_, Some err) \<Rightarrow> Inl err)"

text \<open>Modelled from the spec: RATE [':' RATE2], with Rx := Tx when RATE2 is omitted.\<close>

definition parse_rate_pair :: "(float64 \<Rightarrow> int) \<Rightarrow> string \<Rightarrow> error + (SizeSuffix \<times> SizeSuffix)" where
  "parse_rate_pair impl r =
     (case split_on (\<lambda>c. c = CHR '':'') r of
        [a] \<Rightarrow> (case parse_rate impl a of Inl err \<Rightarrow> Inl err | Inr v \<Rightarrow> Inr (v, v))
      | [a, b] \<Rightarrow>
          (case parse_rate impl a of
             Inl err \<Rightarrow> Inl err
           | Inr v \<Rightarrow> (case parse_rate impl b of Inl err \<Rightarrow> Inl err | Inr w \<Rightarrow> Inr (v, w)))
      | _ \<Rightarrow> Inl (ErrMalformedRatePair r))"

text \<open>
  Modelled from the spec: one token \<open>[DAY '-'] [HH ':' MM ','] RATE [':' RATE2]\<close>. A bare
  rate is one slot on Sunday at 0000; a time without a day is seven slots, Sunday to
  Saturday; a day with a time is one slot.
\<close>

definition parse_token :: "(float64 \<Rightarrow> int) \<Rightarrow> string \<Rightarrow> error + ScheduleSlot list" where
  "parse_token impl tok =
     (case split_on (\<lambda>c. c = CHR '','') tok of
        [r] \<Rightarrow>
          (case parse_rate_pair impl r of
             Inl err \<Rightarrow> Inl err
           | Inr (t, r) \<Rightarrow> Inr [\<lparr>dayOfWeek = 0, timeOfDay = 0, tx = t, rx = r\<rparr>])
      | [ts, r] \<Rightarrow>
          (case split_on (\<lambda>c. c = CHR ''-'') ts of
             [hhmm] \<Rightarrow>
               (case parse_time hhmm of
                  Inl err \<Rightarrow> Inl err
                | Inr hm \<Rightarrow>
                    (case parse_rate_pair impl r of
                       Inl err \<Rightarrow> Inl err
                     | Inr (t, r) \<Rightarrow>
                         Inr (map (\<lambda>d. \<lparr>dayOfWeek = d, timeOfDay = hm, tx = t, rx = r\<rparr>)
                                [0 ..< 7])))
           | [day, hhmm] \<Rightarrow>
               (case parse_day day of
                  Inl err \<Rightarrow> Inl err
                | Inr d \<Rightarrow>
                    (case parse_time hhmm of
                       Inl err \<Rightarrow> Inl err
                     | Inr hm \<Rightarrow>
                         (case parse_rate_pair impl r of
                            Inl err \<Rightarrow> Inl err
                          | Inr (t, r) \<Rightarrow>
                              Inr [\<lparr>dayOfWeek = d, timeOfDay = hm, tx = t, rx = r\<rparr>])))
           | _ \<Rightarrow> Inl (ErrMalformedTime ts))
      | _ \<Rightarrow> Inl (ErrMalformedRatePair tok))"

text \<open>Modelled from the spec: the slots of the tokens, accumulated left to right.\<close>

fun parse_tokens :: "(float64 \<Rightarrow> int) \<Rightarrow> string list \<Rightarrow> error + ScheduleSlot list" where
  "parse_tokens impl [] = Inr []"
| "parse_tokens impl (tok # toks) =
     (case parse_token impl tok of
        Inl err \<Rightarrow> Inl err
      | Inr slots \<Rightarrow>
          (case parse_tokens impl toks of
             Inl err \<Rightarrow> Inl err
           | Inr rest \<Rightarrow> Inr (slots @ rest)))"

text \<open>
  Modelled from the spec: Set of the schedule, parse then assign: on an error the
  target \<open>x\<close> keeps its previous value. A text without a token is the empty-input
  error, as \<open>TestBwTimetableSet\<close> expects of the empty string.
\<close>

definition WeeklySchedule_Set ::
  "(float64 \<Rightarrow> int) \<Rightarrow> WeeklySchedule \<Rightarrow> string \<Rightarrow> WeeklySchedule \<times> error option" where
  "WeeklySchedule_Set impl x s =
     (if tokens s = [] then (x, Some ErrEmptyString)
      else case parse_tokens impl (tokens s) of
             Inl err \<Rightarrow> (x, Some err)
           | Inr slots \<Rightarrow> (slots, None))"

text \<open>Modelled from the spec: what LimitAt reads of its timestamp.\<close>

record Now =
  weekday :: nat
  hour :: nat
  minute :: nat

text \<open>Modelled from the spec: the week position of a timestamp and of a slot, in minutes.\<close>

definition pos_now :: "Now \<Rightarrow> nat" where
  "pos_now t = weekday t * 1440 + hour t * 60 + minute t"

definition pos_slot :: "ScheduleSlot \<Rightarrow> nat" where
  "pos_slot s = dayOfWeek s * 1440 + (timeOfDay s div 100) * 60 + timeOfDay s mod 100"

text \<open>
  Modelled from the spec: the scan that keeps the slot with the largest position, the
  last one in table order among equals.
\<close>

fun latest :: "ScheduleSlot \<Rightarrow> ScheduleSlot list \<Rightarrow> ScheduleSlot" where
  "latest best [] = best"
| "latest best (s # ss) = latest (if pos_slot best \<le> pos_slot s then s else best) ss"

text \<open>
  Modelled from the spec: LimitAt, steps 1 to 5 of section 4.3: the unlimited slot for
  an empty table; else the latest slot among those not after the query; else, when
  there is none, the latest slot of the whole table.
\<close>

definition LimitAt :: "WeeklySchedule \<Rightarrow> Now \<Rightarrow> ScheduleSlot" where
  "LimitAt tbl t =
     (case tbl of
        [] \<Rightarrow> \<lparr>dayOfWeek = 0, timeOfDay = 0, tx = - 1, rx = - 1\<rparr>
      | s # ss \<Rightarrow>
          (case filter (\<lambda>c. pos_slot c \<le> pos_now t) tbl of
             [] \<Rightarrow> latest s ss
           | c # cs \<Rightarrow> latest c cs))"

text \<open>
  Modelled from the spec: the table and the timestamp of the last case of
  \<open>TestBwTimetableLimitAt\<close> (Monday 17 April 2017, 10:59).
\<close>

definition test_table :: WeeklySchedule where
  "test_table =
     [\<lparr>dayOfWeek = 1, timeOfDay = 1100, tx = 333 * 1024, rx = 33 * 1024\<rparr>,
      \<lparr>dayOfWeek = 2, timeOfDay = 1340, tx = 666 * 1024, rx = 66 * 1024\<rparr>,
      \<lparr>dayOfWeek = 5, timeOfDay = 0, tx = 10 * 1024 * 1024, rx = 1 * 1024 * 1024\<rparr>,
      \<lparr>dayOfWeek = 6, timeOfDay = 1000, tx = - 1, rx = 100 * 1024\<rparr>,
      \<lparr>dayOfWeek = 0, timeOfDay = 2300, tx = 666 * 1024, rx = 66 * 1024\<rparr>]"

definition monday_10_59 :: Now where
  "monday_10_59 = \<lparr>weekday = 1, hour = 10, minute = 59\<rparr>"

text \<open>
  Modelled from the spec: a timestamp that precedes every slot of that table in the week
  (a Sunday, 10:00), where step 5 of section 4.3 applies.
\<close>

definition sunday_10_00 :: Now where
  "sunday_10_00 = \<lparr>weekday = 0, hour = 10, minute = 0\<rparr>"

section \<open>Rounding is exact on what fits 53 bits\<close>

lemma pow2_pos: "0 < pow2 e"
  by (simp add: pow2_def zero_less_power_int)

lemma pow2_add: "pow2 (a + b) = pow2 a * pow2 b"
  by (simp add: pow2_def power_int_add)

lemma pow2_nat: "pow2 (int n) = 2 ^ n"
  by (simp add: pow2_def)

lemma pow2_mono: "a \<le> b \<Longrightarrow> pow2 a \<le> pow2 b"
  by (simp add: pow2_def power_int_increasing)

lemma pow2_less_iff: "pow2 a < pow2 b \<longleftrightarrow> a < b"
proof
  assume less: "pow2 a < pow2 b"
  show "a < b"
  proof (rule ccontr)
    assume "\<not> a < b"
    then have "pow2 b \<le> pow2 a" by (simp add: pow2_mono)
    with less show False by simp
  qed
next
  assume "a < b"
  then show "pow2 a < pow2 b"
    by (simp add: pow2_def power_int_strict_increasing)
qed

lemma round_half_even_of_int: "round_half_even (of_int z) = z"
  by (simp add: round_half_even_def)

lemma round_half_even_nonneg: "0 \<le> q \<Longrightarrow> 0 \<le> round_half_even q"
  by (simp add: round_half_even_def Let_def)

lemma floor_rat_numeral_div [simp]:
  "\<lfloor>(numeral a :: rat) / numeral b\<rfloor> = numeral a div numeral b"
  using floor_divide_of_int_eq[of "numeral a" "numeral b", where ?'a = rat] by simp

lemma ilog2_lower:
  assumes "0 < q"
  shows "pow2 (ilog2 q) \<le> q"
proof -
  obtain a b where ab: "quotient_of q = (a, b)" by (cases "quotient_of q")
  then have b: "0 < b" and q: "q = of_int a / of_int b"
    using quotient_of_denom_pos quotient_of_div by auto
  with assms have a: "0 < a"
    by (simp add: zero_less_divide_iff)
  let ?g = "bitlen a - bitlen b"
  have la: "2 ^ nat (bitlen a - 1) \<le> a" using bitlen_bounds[OF a] by simp
  have lb: "b < 2 ^ nat (bitlen b)" using bitlen_bounds[OF b] by simp
  have ba: "1 \<le> bitlen a" using a by (simp add: bitlen_alt_def)
  have bb: "1 \<le> bitlen b" using b by (simp add: bitlen_alt_def)
  have "pow2 (?g - 1) \<le> q"
  proof -
    have "pow2 (?g - 1) = pow2 (bitlen a - 1) / pow2 (bitlen b)"
      by (simp add: pow2_def power_int_diff)
    also have "\<dots> = 2 ^ nat (bitlen a - 1) / 2 ^ nat (bitlen b)"
      using ba bb by (simp add: pow2_def power_int_nonneg_exp)
    also have "\<dots> \<le> of_int a / of_int b"
    proof (rule frac_le)
      show "(2::rat) ^ nat (bitlen a - 1) \<le> of_int a"
        using la by (metis of_int_le_iff of_int_numeral of_int_power)
      show "(of_int b :: rat) \<le> 2 ^ nat (bitlen b)"
        using lb by (metis less_imp_le of_int_le_iff of_int_numeral of_int_power)
    qed (use a b in auto)
    finally show ?thesis using q by simp
  qed
  then show ?thesis
    by (simp add: ilog2_def ab Let_def)
qed

lemma ilog2_upper:
  assumes "0 < q"
  shows "q < pow2 (ilog2 q + 1)"
proof -
  obtain a b where ab: "quotient_of q = (a, b)" by (cases "quotient_of q")
  then have b: "0 < b" and q: "q = of_int a / of_int b"
    using quotient_of_denom_pos quotient_of_div by auto
  with assms have a: "0 < a"
    by (simp add: zero_less_divide_iff)
  let ?g = "bitlen a - bitlen b"
  have la: "a < 2 ^ nat (bitlen a)" using bitlen_bounds[OF a] by simp
  have lb: "2 ^ nat (bitlen b - 1) \<le> b" using bitlen_bounds[OF b] by simp
  have ba: "1 \<le> bitlen a" using a by (simp add: bitlen_alt_def)
  have bb: "1 \<le> bitlen b" using b by (simp add: bitlen_alt_def)
  have "q < pow2 (?g + 1)"
  proof -
    have "of_int a / of_int b < (2::rat) ^ nat (bitlen a) / 2 ^ nat (bitlen b - 1)"
    proof (rule frac_less)
      show "(of_int a :: rat) < 2 ^ nat (bitlen a)"
        using la by (metis of_int_less_iff of_int_numeral of_int_power)
      show "(2::rat) ^ nat (bitlen b - 1) \<le> of_int b"
        using lb by (metis of_int_le_iff of_int_numeral of_int_power)
    qed (use a in auto)
    also have "\<dots> = pow2 (bitlen a) / pow2 (bitlen b - 1)"
      using ba bb by (simp add: pow2_def power_int_nonneg_exp)
    also have "\<dots> = pow2 (?g + 1)"
    proof -
      have "pow2 (?g + 1) * pow2 (bitlen b - 1) = pow2 (bitlen a)"
        by (simp add: pow2_add[symmetric])
      then show ?thesis
        using pow2_pos[of "bitlen b - 1"] by (simp add: field_simps)
    qed
    finally show ?thesis using q by simp
  qed
  then show ?thesis
    by (simp add: ilog2_def ab Let_def)
qed

lemma ilog2_unique:
  assumes "pow2 e \<le> q" and "q < pow2 (e + 1)"
  shows "ilog2 q = e"
proof -
  have q: "0 < q" using assms(1) pow2_pos[of e] by simp
  have "pow2 (ilog2 q) < pow2 (e + 1)"
    using ilog2_lower[OF q] assms(2) by simp
  moreover have "pow2 e < pow2 (ilog2 q + 1)"
    using ilog2_upper[OF q] assms(1) by simp
  ultimately show ?thesis by (simp add: pow2_less_iff)
qed

lemma float64_round_exact:
  assumes m: "\<bar>m\<bar> < 2 ^ 53" and s: "- 1074 \<le> s" and r: "\<bar>of_int m * pow2 s\<bar> < pow2 1024"
  shows "float64_round (of_int m * pow2 s) = Finite (of_int m * pow2 s)"
proof (cases "m = 0")
  case True
  then show ?thesis by (simp add: float64_round_def)
next
  case False
  let ?q = "of_int m * pow2 s"
  have q0: "?q \<noteq> 0" using False pow2_pos[of s] by simp
  define e where "e = max (ilog2 \<bar>?q\<bar>) (- 1022)"
  have "pow2 (ilog2 \<bar>?q\<bar>) \<le> \<bar>?q\<bar>"
    using q0 by (intro ilog2_lower) simp
  also have "\<bar>?q\<bar> = of_int \<bar>m\<bar> * pow2 s"
    using pow2_pos[of s] by (simp add: abs_mult)
  also have "\<dots> < 2 ^ 53 * pow2 s"
  proof -
    have "(of_int \<bar>m\<bar> :: rat) < 2 ^ 53" using m
      by (metis of_int_less_iff of_int_numeral of_int_power)
    then show ?thesis using pow2_pos[of s] by simp
  qed
  also have "\<dots> = pow2 (53 + s)"
    by (simp add: pow2_add) (simp add: pow2_def)
  finally have "ilog2 \<bar>?q\<bar> < 53 + s" by (simp add: pow2_less_iff)
  then have e: "e - 52 \<le> s" using s by (simp add: e_def)
  define k where "k = nat (s - (e - 52))"
  have ps: "pow2 s = 2 ^ k * pow2 (e - 52)"
  proof -
    have "pow2 s = pow2 (int k + (e - 52))" using e by (simp add: k_def)
    then show ?thesis by (simp only: pow2_add pow2_nat)
  qed
  have "?q / pow2 (e - 52) = of_int (m * 2 ^ k)"
    using pow2_pos[of "e - 52"] by (simp add: ps)
  then have "round_half_even (?q / pow2 (e - 52)) = m * 2 ^ k"
    by (simp only: round_half_even_of_int)
  then have "of_int (round_half_even (?q / pow2 (e - 52))) * pow2 (e - 52) = ?q"
    by (simp add: ps)
  then show ?thesis
    using q0 r unfolding float64_round_def e_def[symmetric] Let_def
    by (simp del: of_int_mult)
qed

lemma float64_round_int:
  assumes "\<bar>z\<bar> < 2 ^ 53"
  shows "float64_round (of_int z) = Finite (of_int z)"
proof -
  have "(of_int \<bar>z\<bar> :: rat) < 2 ^ 53"
    using assms by (metis of_int_less_iff of_int_numeral of_int_power)
  also have "\<dots> < pow2 1024" by (simp add: pow2_def)
  finally have "\<bar>of_int z * pow2 0\<bar> < pow2 1024" by (simp add: pow2_def)
  with float64_round_exact[OF assms, of 0] show ?thesis by (simp add: pow2_def)
qed

lemma float64_round_numeral [simp]:
  "numeral w < (2 ^ 53 :: int) \<Longrightarrow> float64_round (numeral w) = Finite (numeral w)"
  using float64_round_int[of "numeral w"] by simp

lemma float64_round_1 [simp]: "float64_round 1 = Finite 1"
  using float64_round_int[of 1] by simp

lemma float64_round_0 [simp]: "float64_round 0 = Finite 0"
  by (simp add: float64_round_def)

lemma float64_round_neg_numeral [simp]:
  "numeral w < (2 ^ 53 :: int) \<Longrightarrow> float64_round (- numeral w) = Finite (- numeral w)"
  using float64_round_int[of "- numeral w"] by simp

lemma float64_round_neg_1 [simp]: "float64_round (- 1) = Finite (- 1)"
  using float64_round_int[of "- 1"] by simp

lemma float64_round_normal:
  assumes "pow2 e \<le> \<bar>q\<bar>" and "\<bar>q\<bar> < pow2 (e + 1)" and "- 1022 \<le> e"
    and "r = of_int (round_half_even (q / pow2 (e - 52))) * pow2 (e - 52)"
    and "\<bar>r\<bar> < pow2 1024"
  shows "float64_round q = Finite r"
proof -
  have "q \<noteq> 0" using assms(1) pow2_pos[of e] by auto
  moreover have "max (ilog2 \<bar>q\<bar>) (- 1022) = e"
    using ilog2_unique[OF assms(1,2)] assms(3) by simp
  ultimately show ?thesis
    using assms(4,5) by (simp add: float64_round_def Let_def)
qed

lemma float64_round_nonneg:
  assumes "0 \<le> q" and "float64_round q = Finite p"
  shows "0 \<le> p"
proof (cases "q = 0")
  case True
  with assms show ?thesis by (simp add: float64_round_def)
next
  case False
  define u where "u = pow2 (max (ilog2 \<bar>q\<bar>) (- 1022) - 52)"
  have u: "0 < u" by (simp add: u_def pow2_pos)
  from assms(2) False have "p = of_int (round_half_even (q / u)) * u"
    by (simp add: float64_round_def Let_def u_def split: if_splits)
  moreover have "0 \<le> round_half_even (q / u)"
    using assms(1) u by (intro round_half_even_nonneg) simp
  ultimately show ?thesis using u by simp
qed

lemma float64_round_scaled:
  assumes "0 \<le> k" "k < 1024" "e \<le> 60"
  shows "float64_round (of_int k * 2 ^ e) = Finite (of_int k * 2 ^ e)"
proof -
  have k: "\<bar>k\<bar> < 2 ^ 53" using assms by simp
  have "of_int k * (2::rat) ^ e < 1024 * 2 ^ e"
    using assms by simp
  also have "\<dots> \<le> 1024 * 2 ^ 60"
  proof -
    have "(2::rat) ^ e \<le> 2 ^ 60" using assms(3) by (intro power_increasing) simp_all
    then show ?thesis by simp
  qed
  also have "\<dots> < pow2 1024" by (simp add: pow2_def)
  finally have "\<bar>of_int k * pow2 (int e)\<bar> < pow2 1024"
    using assms by (simp add: pow2_nat abs_mult)
  from float64_round_exact[OF k _ this] show ?thesis by (simp add: pow2_nat)
qed

lemma round_10_1_Gi:
  "float64_round (54223962112 / 5) = Finite (5685794529555251 / 524288)"
  by (rule float64_round_normal[where e = 33])
    (simp_all add: pow2_def round_half_even_def Let_def)

lemma round_dyadic_examples:
  "float64_round (1048577 / 1048576) = Finite (1048577 / 1048576)"
  "float64_round (5422396211 / 536870912) = Finite (5422396211 / 536870912)"
  "float64_round (3 / 2) = Finite (3 / 2)"
  using float64_round_exact[of 1048577 "- 20"] float64_round_exact[of 5422396211 "- 29"]
    float64_round_exact[of 3 "- 1"]
  by (simp_all add: pow2_def)

section \<open>Rules for evaluating the definitions on literals\<close>

lemma float64_of_int_consts:
  "float64_of_int Byte = Finite 1"
  "float64_of_int KibiByte = Finite (2 ^ 10)"
  "float64_of_int MebiByte = Finite (2 ^ 20)"
  "float64_of_int GibiByte = Finite (2 ^ 30)"
  "float64_of_int TebiByte = Finite (2 ^ 40)"
  "float64_of_int PebiByte = Finite (2 ^ 50)"
  "float64_of_int ExbiByte = Finite (2 ^ 60)"
proof -
  show "float64_of_int Byte = Finite 1" by (simp add: float64_of_int_def Byte_def)
  show "float64_of_int KibiByte = Finite (2 ^ 10)" by (simp add: float64_of_int_def KibiByte_def)
  show "float64_of_int MebiByte = Finite (2 ^ 20)" by (simp add: float64_of_int_def MebiByte_def)
  show "float64_of_int GibiByte = Finite (2 ^ 30)" by (simp add: float64_of_int_def GibiByte_def)
  show "float64_of_int TebiByte = Finite (2 ^ 40)" by (simp add: float64_of_int_def TebiByte_def)
  show "float64_of_int PebiByte = Finite (2 ^ 50)" by (simp add: float64_of_int_def PebiByte_def)
  show "float64_of_int ExbiByte = Finite (2 ^ 60)"
    using float64_round_exact[of 1 60] by (simp add: float64_of_int_def ExbiByte_def pow2_def)
qed

lemma float64_of_int_numeral:
  "numeral w < (2 ^ 53 :: int) \<Longrightarrow> float64_of_int (numeral w) = Finite (numeral w)"
  by (simp add: float64_of_int_def)

lemma float64_of_int_Exbi: "float64_of_int 1152921504606846976 = Finite 1152921504606846976"
  using float64_of_int_consts(7) by (simp add: ExbiByte_def)

lemma float64_of_int_1: "float64_of_int 1 = Finite 1"
  by (simp add: float64_of_int_def)

lemma replicate_2: "replicate 2 c = [c, c]"
  by (simp add: numeral_2_eq_2)

lemma upt_week: "[0 ..< 7] = [0, 1, 2, 3, 4, 5, 6 :: nat]"
  by (simp add: upt_conv_Cons)

lemmas eval_defs = ParseFloat_def special_def ToLower_def lower_def readFloat_def read_mantissa_def
  read_exponent_def is_digit_def is_hexdigit_def digit_val_def digits_val_def underscoreOK_def

lemmas set_defs = SizeSuffix_Set_def SizeSuffix_Set_part000_def Set_switch_def Set_switch_part000_def
  Set_number_def symbolMultiplier_def float64_of_int_consts int64_of_float64_def trunc_def

lemmas unit_defs = KibiByte_def MebiByte_def GibiByte_def TebiByte_def PebiByte_def ExbiByte_def

lemmas string_defs = float64_of_int_1 replicate_2 SizeSuffix_String_def SizeSuffix_string_def string_scaled_def
  SizeSuffix_String_part000_def SizeSuffix_string_part000_def string_scaled_part000_def
  unit_defs float64_of_int_numeral float64_of_int_Exbi float64_eq_def Sprintf_f_def
  round_half_even_def Let_def show_nat.simps digit_char_def

lemmas parse_defs = WeeklySchedule_Set_def tokens_def is_space_def parse_token_def parse_day_def
  parse_time_def parse_int_def parse_rate_pair_def parse_rate_def

lemmas sched_defs = LimitAt_def test_table_def monday_10_59_def sunday_10_00_def pos_slot_def
  pos_now_def

section \<open>Decimal digits: printing and parsing a natural number\<close>

lemma digit_cases:
  "d < 10 \<Longrightarrow> d = 0 \<or> d = 1 \<or> d = 2 \<or> d = 3 \<or> d = 4 \<or> d = 5 \<or> d = 6 \<or> d = 7 \<or> d = 8 \<or> d = (9::nat)"
  by arith

lemma digit_char_is_digit: "d < 10 \<Longrightarrow> is_digit (digit_char d)"
  by (drule digit_cases) (elim disjE; simp add: digit_char_def is_digit_def)

lemma digit_val_digit_char: "d < 10 \<Longrightarrow> digit_val (digit_char d) = d"
  by (drule digit_cases) (elim disjE; simp add: digit_char_def is_digit_def digit_val_def)

lemmas digit_char_props = digit_char_is_digit digit_val_digit_char

lemma is_digit_lower: "is_digit c \<Longrightarrow> lower c = c"
  unfolding is_digit_def by (elim disjE | simp add: lower_def)+

lemma show_nat_digits: "list_all is_digit (show_nat n)"
proof (induction n rule: show_nat.induct)
  case (1 n)
  show ?case
  proof (cases "n < 10")
    case True
    then show ?thesis by (simp add: show_nat.simps[of n] digit_char_props)
  next
    case False
    with 1 show ?thesis by (simp add: show_nat.simps[of n] digit_char_props)
  qed
qed

lemma show_nat_nonempty: "show_nat n \<noteq> []"
  by (simp add: show_nat.simps[of n])

lemma digits_val_snoc: "digits_val b (xs @ [c]) = b * digits_val b xs + digit_val c"
  by (simp add: digits_val_def)

lemma digits_val_show_nat: "digits_val 10 (show_nat n) = n"
proof (induction n rule: show_nat.induct)
  case (1 n)
  show ?case
  proof (cases "n < 10")
    case True
    then show ?thesis by (simp add: show_nat.simps[of n] digits_val_def digit_char_props)
  next
    case False
    with 1 show ?thesis
      by (simp add: show_nat.simps[of n] digits_val_snoc digit_char_props)
  qed
qed

lemma digits_ToLower: "list_all is_digit s \<Longrightarrow> ToLower s = s"
  by (induction s) (simp_all add: ToLower_def is_digit_lower)

lemma digits_no_letter:
  assumes "list_all is_digit s" and "\<not> is_digit c"
  shows "c \<notin> set s"
  using assms by (auto simp: list_all_iff)

lemma strip_sign_digits:
  assumes "list_all is_digit s"
  shows "strip_sign s = (False, s)"
proof (cases s)
  case Nil
  then show ?thesis by simp
next
  case (Cons c cs)
  with assms have "is_digit c" by simp
  then have "c \<noteq> CHR ''+''" "c \<noteq> CHR ''-''" by (auto simp: is_digit_def)
  with Cons show ?thesis by simp
qed

lemma special_digits:
  assumes "list_all is_digit s"
  shows "special s = None"
proof -
  have "CHR ''i'' \<notin> set s" "CHR ''n'' \<notin> set s"
    using digits_no_letter[OF assms, of "CHR ''i''"] digits_no_letter[OF assms, of "CHR ''n''"]
    by (simp_all add: is_digit_def)
  then have "s \<noteq> ''inf''" "s \<noteq> ''infinity''" "s \<noteq> ''nan''" by auto
  then show ?thesis
    by (simp add: special_def strip_sign_digits[OF assms] digits_ToLower[OF assms])
qed

lemma takeWhile_digits: "list_all is_digit s \<Longrightarrow> takeWhile is_digit s = s"
  by (simp add: list_all_iff)

lemma dropWhile_digits: "list_all is_digit s \<Longrightarrow> dropWhile is_digit s = []"
  by (simp add: list_all_iff)

lemma readFloat_digits:
  assumes d: "list_all is_digit s" and ne: "s \<noteq> []"
  shows "readFloat s = Some (of_nat (digits_val 10 s))"
proof -
  have "\<not> (2 \<le> length s \<and> hd s = CHR ''0'' \<and> lower (s ! 1) = CHR ''x'')"
  proof
    assume a: "2 \<le> length s \<and> hd s = CHR ''0'' \<and> lower (s ! 1) = CHR ''x''"
    then have "s ! 1 \<in> set s" by simp
    with d have "is_digit (s ! 1)" by (simp add: list_all_iff)
    then have "lower (s ! 1) = s ! 1" "s ! 1 \<noteq> CHR ''x''"
      by (simp_all add: is_digit_lower) (auto simp: is_digit_def)
    then have "lower (s ! 1) \<noteq> CHR ''x''" by simp
    with a show False by simp
  qed
  then have hex: "(2 \<le> length s \<and> hd s = CHR ''0'' \<and> lower (s ! 1) = CHR ''x'') = False"
    by simp
  have m: "read_mantissa is_digit s = Some (s, [], [])"
    using ne by (simp add: read_mantissa_def takeWhile_digits[OF d] dropWhile_digits[OF d])
  show ?thesis
    by (simp add: readFloat_def strip_sign_digits[OF d] m hex del: One_nat_def)
qed

lemma ParseFloat_digits:
  assumes d: "list_all is_digit s" and ne: "s \<noteq> []" and v: "digits_val 10 s < 2 ^ 53"
  shows "ParseFloat s = Inr (Finite (of_nat (digits_val 10 s)))"
proof -
  have u: "CHR ''_'' \<notin> set s"
    using digits_no_letter[OF d, of "CHR ''_''"] by (simp add: is_digit_def)
  then have f: "filter (\<lambda>c. c \<noteq> CHR ''_'') s = s"
    by (auto simp: filter_id_conv)
  have "\<bar>int (digits_val 10 s)\<bar> < 2 ^ 53" using v by simp
  from float64_round_int[OF this]
  have r: "float64_round (of_nat (digits_val 10 s)) = Finite (of_nat (digits_val 10 s))"
    by simp
  show ?thesis
    by (simp add: ParseFloat_def special_digits[OF d] u f readFloat_digits[OF d ne] r)
qed

lemma ParseFloat_show_nat:
  "n < 2 ^ 53 \<Longrightarrow> ParseFloat (show_nat n) = Inr (Finite (of_nat n))"
  using ParseFloat_digits[OF show_nat_digits show_nat_nonempty, of n]
  by (simp add: digits_val_show_nat)

section \<open>The switch of Set on each suffix form\<close>

lemma lower_last_off:
  assumes "ToLower (p @ [c]) = ''off''"
  shows "lower c = CHR ''f''"
proof -
  have "last (ToLower (p @ [c])) = lower c" by (simp add: ToLower_def)
  with assms show ?thesis by simp
qed

lemma lower_unit_letters:
  assumes "L \<in> set ''kKmMgGtTpPeEiIbB''"
  shows "lower L \<noteq> CHR ''f''"
  using assms by (auto simp: lower_def)

lemma not_off:
  assumes "c \<in> set ''kKmMgGtTpPeEiIbB''"
  shows "ToLower (p @ [c]) \<noteq> ''off''"
  using lower_last_off[of p c] lower_unit_letters[OF assms] by blast

lemma symbolMultiplier_found:
  assumes "L \<in> set ''kKmMgGtTpPeE''"
  shows "fst (symbolMultiplier L)"
  using assms by (auto simp: symbolMultiplier_def)

lemma unit_letter_kinds:
  assumes "L \<in> set ''kKmMgGtTpPeE''"
  shows "L \<notin> set ''0123456789.''" "L \<notin> set ''bB''" "L \<notin> set ''iI''"
  using assms by auto

lemma symbolMultiplier_capitals:
  "snd (symbolMultiplier CHR ''K'') = Finite (2 ^ 10)"
  "snd (symbolMultiplier CHR ''M'') = Finite (2 ^ 20)"
  "snd (symbolMultiplier CHR ''G'') = Finite (2 ^ 30)"
  "snd (symbolMultiplier CHR ''T'') = Finite (2 ^ 40)"
  "snd (symbolMultiplier CHR ''P'') = Finite (2 ^ 50)"
  "snd (symbolMultiplier CHR ''E'') = Finite (2 ^ 60)"
  by (simp_all add: symbolMultiplier_def float64_of_int_consts)

lemma symbolMultiplier_cases:
  "symbolMultiplier c = (True, Finite (2 ^ 10)) \<or> symbolMultiplier c = (True, Finite (2 ^ 20)) \<or>
   symbolMultiplier c = (True, Finite (2 ^ 30)) \<or> symbolMultiplier c = (True, Finite (2 ^ 40)) \<or>
   symbolMultiplier c = (True, Finite (2 ^ 50)) \<or> symbolMultiplier c = (True, Finite (2 ^ 60)) \<or>
   symbolMultiplier c = (False, Finite 1)"
  unfolding symbolMultiplier_def float64_of_int_consts by (simp del: list.set)

lemma symbolMultiplier_range:
  assumes "fst (symbolMultiplier c)"
  shows "\<exists>m. snd (symbolMultiplier c) = Finite m \<and> 0 < m \<and>
           m \<in> {1, 2 ^ 10, 2 ^ 20, 2 ^ 30, 2 ^ 40, 2 ^ 50, 2 ^ 60}"
  using symbolMultiplier_cases[of c] assms by (elim disjE) simp_all

lemma Set_switch_L:
  assumes "L \<in> set ''kKmMgGtTpPeE''"
  shows "Set_switch (p @ [L]) = Inr (1, snd (symbolMultiplier L))"
  using unit_letter_kinds[OF assms] symbolMultiplier_found[OF assms]
  by (simp add: Set_switch_def Let_def split_beta)

lemma Set_switch_Li:
  assumes "L \<in> set ''kKmMgGtTpPeE''" and "c \<in> set ''iI''"
  shows "Set_switch (p @ [L, c]) = Inr (2, snd (symbolMultiplier L))"
proof -
  have c: "c \<notin> set ''0123456789.''" "c \<notin> set ''bB''"
    using assms(2) by auto
  have n: "(p @ [L, c]) ! Suc (length p) = c" "(p @ [L, c]) ! length p = L"
    by (simp_all add: nth_append)
  show ?thesis
    using c assms(2) symbolMultiplier_found[OF assms(1)] n
    by (simp add: Set_switch_def Let_def split_beta)
qed

lemma Set_switch_LiB:
  assumes "L \<in> set ''kKmMgGtTpPeE''" and "b \<in> set ''bB''"
  shows "Set_switch (p @ [L, CHR ''i'', b]) = Inr (3, snd (symbolMultiplier L))"
proof -
  have b: "b \<notin> set ''0123456789.''"
    using assms(2) by auto
  have n: "(p @ [L, CHR ''i'', b]) ! Suc (Suc (length p)) = b"
    "(p @ [L, CHR ''i'', b]) ! Suc (length p) = CHR ''i''"
    "(p @ [L, CHR ''i'', b]) ! length p = L"
    by (simp_all add: nth_append)
  show ?thesis
    using b assms(2) symbolMultiplier_found[OF assms(1)] n
    by (simp add: Set_switch_def Let_def split_beta numeral_2_eq_2 numeral_3_eq_3)
qed

lemma Set_L:
  assumes "L \<in> set ''kKmMgGtTpPeE''"
  shows "SizeSuffix_Set impl x (p @ [L]) = Set_number impl x p (snd (symbolMultiplier L))"
proof -
  have "ToLower (p @ [L]) \<noteq> ''off''" using assms by (intro not_off) auto
  then show ?thesis by (simp add: SizeSuffix_Set_def Set_switch_L[OF assms])
qed

lemma Set_Li:
  assumes "L \<in> set ''kKmMgGtTpPeE''" and "c \<in> set ''iI''"
  shows "SizeSuffix_Set impl x (p @ [L, c]) = Set_number impl x p (snd (symbolMultiplier L))"
proof -
  have "ToLower ((p @ [L]) @ [c]) \<noteq> ''off''" using assms(2) by (intro not_off) auto
  then show ?thesis by (simp add: SizeSuffix_Set_def Set_switch_Li[OF assms])
qed

lemma Set_LiB:
  assumes "L \<in> set ''kKmMgGtTpPeE''" and "b \<in> set ''bB''"
  shows "SizeSuffix_Set impl x (p @ [L, CHR ''i'', b]) = Set_number impl x p (snd (symbolMultiplier L))"
proof -
  have "ToLower ((p @ [L, CHR ''i'']) @ [b]) \<noteq> ''off''" using assms(2) by (intro not_off) auto
  then show ?thesis by (simp add: SizeSuffix_Set_def Set_switch_LiB[OF assms])
qed

lemma Set_bi:
  assumes "b \<in> set ''bB''" and "c \<in> set ''iI''"
  shows "SizeSuffix_Set impl x (p @ [b, c]) = (x, Some (ErrBadSuffix b))"
proof -
  have "ToLower ((p @ [b]) @ [c]) \<noteq> ''off''" using assms(2) by (intro not_off) auto
  moreover have "Set_switch (p @ [b, c]) = Inl (ErrBadSuffix b)"
  proof -
    have n: "(p @ [b, c]) ! Suc (length p) = c" "(p @ [b, c]) ! length p = b"
      by (simp_all add: nth_append)
    have c: "c \<notin> set ''0123456789.''" "c \<notin> set ''bB''"
      using assms(2) by auto
    have "\<not> fst (symbolMultiplier b)"
      using assms(1) by (auto simp: symbolMultiplier_def)
    with c assms(2) n show ?thesis
      by (simp add: Set_switch_def Let_def split_beta)
  qed
  ultimately show ?thesis by (simp add: SizeSuffix_Set_def)
qed

lemma Set_part000_L:
  assumes "L \<in> set ''kKmMgGtTpPeE''"
  shows "SizeSuffix_Set_part000 impl x (p @ [L]) = Set_number impl x p (snd (symbolMultiplier L))"
proof -
  have "ToLower (p @ [L]) \<noteq> ''off''" using assms by (intro not_off) auto
  moreover have "Set_switch_part000 (p @ [L]) = Inr (1, snd (symbolMultiplier L))"
    using assms by (auto simp: Set_switch_part000_def symbolMultiplier_def)
  ultimately show ?thesis by (simp add: SizeSuffix_Set_part000_def)
qed

lemma Set_part000_Li:
  assumes "c \<in> set ''iI''"
  shows "SizeSuffix_Set_part000 impl x (p @ [L, c]) = (x, Some (ErrBadSuffix c))"
proof -
  have "ToLower ((p @ [L]) @ [c]) \<noteq> ''off''" using assms by (intro not_off) auto
  moreover have "Set_switch_part000 (p @ [L, c]) = Inl (ErrBadSuffix c)"
  proof -
    have n: "(p @ [L, c]) ! Suc (length p) = c"
      by (simp add: nth_append)
    have "c \<notin> set ''0123456789.bBkKmMgGtTpPeE''"
      using assms by auto
    then show ?thesis
      by (simp add: Set_switch_part000_def Let_def n)
  qed
  ultimately show ?thesis by (simp add: SizeSuffix_Set_part000_def)
qed

lemma Set_switch_no_i:
  assumes "s \<noteq> []" "CHR ''i'' \<notin> set s" "CHR ''I'' \<notin> set s"
  shows "Set_switch s = Set_switch_part000 s"
proof -
  have "s ! (length s - 1) \<in> set s"
    using assms(1) by simp
  with assms have last: "s ! (length s - 1) \<noteq> CHR ''i''" "s ! (length s - 1) \<noteq> CHR ''I''"
    by metis+
  show ?thesis
  proof (cases "length s > 2")
    case True
    then have "s ! (length s - 2) \<in> set s" by simp
    with assms have "s ! (length s - 2) \<noteq> CHR ''i''" by metis
    with last show ?thesis
      by (simp add: Set_switch_def Set_switch_part000_def symbolMultiplier_def Let_def)
  next
    case False
    with last show ?thesis
      by (simp add: Set_switch_def Set_switch_part000_def symbolMultiplier_def Let_def)
  qed
qed

lemma Set_switch_range:
  assumes "Set_switch s = Inr (n, mult)"
  shows "\<exists>m. mult = Finite m \<and> 0 < m \<and> m \<in> {1, 2 ^ 10, 2 ^ 20, 2 ^ 30, 2 ^ 40, 2 ^ 50, 2 ^ 60}"
  using assms symbolMultiplier_range
  unfolding Set_switch_def Let_def split_beta float64_of_int_consts
  by (auto simp del: list.set split: if_splits)

lemma Set_switch_part000_range:
  assumes "Set_switch_part000 s = Inr (n, mult)"
  shows "\<exists>m. mult = Finite m \<and> 0 < m \<and> m \<in> {1, 2 ^ 10, 2 ^ 20, 2 ^ 30, 2 ^ 40, 2 ^ 50, 2 ^ 60}"
  using assms unfolding Set_switch_part000_def Let_def float64_of_int_consts
  by (auto simp del: list.set split: if_splits)

section \<open>Values with an integral scaled part\<close>

lemma Set_number_exact:
  assumes "0 \<le> k" "k < 1024" "e \<le> 60" "k * 2 ^ e < 2 ^ 63"
  shows "Set_number impl x (show_nat (nat k)) (Finite (2 ^ e)) = (k * 2 ^ e, None)"
proof -
  have "nat k < 2 ^ 53" using assms by (simp add: nat_less_iff)
  from ParseFloat_show_nat[OF this] assms(1)
  have p: "ParseFloat (show_nat (nat k)) = Inr (Finite (of_int k))" by simp
  have t: "trunc (of_int k * 2 ^ e) = k * 2 ^ e"
  proof -
    have "of_int k * (2::rat) ^ e = of_int (k * 2 ^ e)" by simp
    moreover have "0 \<le> k * 2 ^ e" using assms by simp
    ultimately show ?thesis unfolding trunc_def by (simp del: of_int_mult)
  qed
  have r: "- (2 ^ 63) \<le> k * 2 ^ e" using assms by (simp add: order_trans[of _ 0])
  show ?thesis
    using assms r
    by (simp add: Set_number_def p float64_round_scaled int64_of_float64_def t)
qed

lemma Sprintf_0_int:
  assumes "0 \<le> k"
  shows "Sprintf_f 0 (Finite (of_int k)) = show_nat (nat k)"
  using assms by (simp add: Sprintf_f_def round_half_even_of_int)

lemma scaled_exact:
  assumes "0 \<le> k" "k < 1024" "e \<le> 60"
  shows "float64_div (float64_of_int (k * 2 ^ e)) (Finite (2 ^ e)) = Finite (of_int k)"
proof -
  have "float64_of_int (k * 2 ^ e) = Finite (of_int k * 2 ^ e)"
    using float64_round_scaled[OF assms] by (simp add: float64_of_int_def)
  moreover have "float64_round (of_int k) = Finite (of_int k)"
    using assms by (intro float64_round_int) simp
  ultimately show ?thesis by simp
qed

lemma unit_cases:
  "1 \<le> n \<Longrightarrow> n \<le> 6 \<Longrightarrow> n = 1 \<or> n = 2 \<or> n = 3 \<or> n = 4 \<or> n = 5 \<or> n = (6::nat)"
  by arith

lemma String_units:
  assumes "1 \<le> k" "k < 1024"
  shows "SizeSuffix_String (k * 2 ^ 10) = show_nat (nat k) @ ''Ki''"
    and "SizeSuffix_String (k * 2 ^ 20) = show_nat (nat k) @ ''Mi''"
    and "SizeSuffix_String (k * 2 ^ 30) = show_nat (nat k) @ ''Gi''"
    and "SizeSuffix_String (k * 2 ^ 40) = show_nat (nat k) @ ''Ti''"
    and "SizeSuffix_String (k * 2 ^ 50) = show_nat (nat k) @ ''Pi''"
    and "SizeSuffix_String (k * 2 ^ 60) = show_nat (nat k) @ ''Ei''"
proof -
  have k: "0 \<le> k" using assms by simp
  note sc = scaled_exact[OF k assms(2)]
  show "SizeSuffix_String (k * 2 ^ 10) = show_nat (nat k) @ ''Ki''"
    using assms sc[of 10]
    by (simp add: SizeSuffix_String_def SizeSuffix_string_def string_scaled_def unit_defs
        float64_of_int_numeral float64_of_int_Exbi float64_eq_def Sprintf_0_int[OF k])
  show "SizeSuffix_String (k * 2 ^ 20) = show_nat (nat k) @ ''Mi''"
    using assms sc[of 20]
    by (simp add: SizeSuffix_String_def SizeSuffix_string_def string_scaled_def unit_defs
        float64_of_int_numeral float64_of_int_Exbi float64_eq_def Sprintf_0_int[OF k])
  show "SizeSuffix_String (k * 2 ^ 30) = show_nat (nat k) @ ''Gi''"
    using assms sc[of 30]
    by (simp add: SizeSuffix_String_def SizeSuffix_string_def string_scaled_def unit_defs
        float64_of_int_numeral float64_of_int_Exbi float64_eq_def Sprintf_0_int[OF k])
  show "SizeSuffix_String (k * 2 ^ 40) = show_nat (nat k) @ ''Ti''"
    using assms sc[of 40]
    by (simp add: SizeSuffix_String_def SizeSuffix_string_def string_scaled_def unit_defs
        float64_of_int_numeral float64_of_int_Exbi float64_eq_def Sprintf_0_int[OF k])
  show "SizeSuffix_String (k * 2 ^ 50) = show_nat (nat k) @ ''Pi''"
    using assms sc[of 50]
    by (simp add: SizeSuffix_String_def SizeSuffix_string_def string_scaled_def unit_defs
        float64_of_int_numeral float64_of_int_Exbi float64_eq_def Sprintf_0_int[OF k])
  show "SizeSuffix_String (k * 2 ^ 60) = show_nat (nat k) @ ''Ei''"
    using assms sc[of 60]
    by (simp add: SizeSuffix_String_def SizeSuffix_string_def string_scaled_def unit_defs
        float64_of_int_numeral float64_of_int_Exbi float64_eq_def Sprintf_0_int[OF k])
qed

lemma String_part000_units:
  assumes "1 \<le> k" "k < 1024"
  shows "SizeSuffix_String_part000 (k * 2 ^ 10) = show_nat (nat k) @ ''K''"
    and "SizeSuffix_String_part000 (k * 2 ^ 20) = show_nat (nat k) @ ''M''"
    and "SizeSuffix_String_part000 (k * 2 ^ 30) = show_nat (nat k) @ ''G''"
    and "SizeSuffix_String_part000 (k * 2 ^ 40) = show_nat (nat k) @ ''T''"
    and "SizeSuffix_String_part000 (k * 2 ^ 50) = show_nat (nat k) @ ''P''"
    and "SizeSuffix_String_part000 (k * 2 ^ 60) = show_nat (nat k) @ ''E''"
proof -
  have k: "0 \<le> k" using assms by simp
  note sc = scaled_exact[OF k assms(2)]
  note defs = SizeSuffix_String_part000_def SizeSuffix_string_part000_def string_scaled_part000_def
    unit_defs float64_of_int_numeral float64_of_int_Exbi float64_eq_def Sprintf_0_int[OF k]
  show "SizeSuffix_String_part000 (k * 2 ^ 10) = show_nat (nat k) @ ''K''"
    using assms sc[of 10] by (simp add: defs)
  show "SizeSuffix_String_part000 (k * 2 ^ 20) = show_nat (nat k) @ ''M''"
    using assms sc[of 20] by (simp add: defs)
  show "SizeSuffix_String_part000 (k * 2 ^ 30) = show_nat (nat k) @ ''G''"
    using assms sc[of 30] by (simp add: defs)
  show "SizeSuffix_String_part000 (k * 2 ^ 40) = show_nat (nat k) @ ''T''"
    using assms sc[of 40] by (simp add: defs)
  show "SizeSuffix_String_part000 (k * 2 ^ 50) = show_nat (nat k) @ ''P''"
    using assms sc[of 50] by (simp add: defs)
  show "SizeSuffix_String_part000 (k * 2 ^ 60) = show_nat (nat k) @ ''E''"
    using assms sc[of 60] by (simp add: defs)
qed

lemma Set_of_unit:
  assumes "0 \<le> k" "k < 1024" "e \<le> 60" "k * 2 ^ e < 2 ^ 63"
    and "L \<in> set ''kKmMgGtTpPeE''" and "snd (symbolMultiplier L) = Finite (2 ^ e)"
  shows "SizeSuffix_Set impl x (show_nat (nat k) @ [L, CHR ''i'']) = (k * 2 ^ e, None)"
    and "SizeSuffix_Set_part000 impl x (show_nat (nat k) @ [L]) = (k * 2 ^ e, None)"
  using Set_Li[OF assms(5), of "CHR ''i''" impl x "show_nat (nat k)"]
    Set_part000_L[OF assms(5), of impl x "show_nat (nat k)"]
    Set_number_exact[OF assms(1-4), of impl x] assms(6)
  by simp_all

lemma Set_String_zero:
  "SizeSuffix_Set impl x (SizeSuffix_String 0) = (0, None)"
  "SizeSuffix_Set_part000 impl x (SizeSuffix_String_part000 0) = (0, None)"
  by (simp_all add: SizeSuffix_String_def SizeSuffix_string_def SizeSuffix_String_part000_def
      SizeSuffix_string_part000_def set_defs eval_defs)

section \<open>What an accepted input stores\<close>

lemma product_nonneg:
  assumes "\<not> float64_less num (Finite 0)" and "0 < m" and "float64_mul num (Finite m) = Finite p"
  shows "0 \<le> p"
proof (cases num)
  case (Finite a)
  with assms(1) have "0 \<le> a" by simp
  with assms(2) have "0 \<le> a * m" by simp
  from float64_round_nonneg[OF this] assms(3) Finite show ?thesis by simp
next
  case PosInf
  with assms(3) show ?thesis by (simp split: if_splits)
next
  case NegInf
  with assms(1) show ?thesis by simp
next
  case NaN
  with assms(3) show ?thesis by simp
qed

lemma int64_of_nonneg:
  assumes "0 \<le> p" and "p < 2 ^ 63"
  shows "int64_of_float64 impl (Finite p) = \<lfloor>p\<rfloor>" and "0 \<le> \<lfloor>p\<rfloor>"
proof -
  show f: "0 \<le> \<lfloor>p\<rfloor>" using assms(1) by simp
  have "\<lfloor>p\<rfloor> < 2 ^ 63" using assms(2) by (simp add: floor_less_iff)
  with f assms(1) show "int64_of_float64 impl (Finite p) = \<lfloor>p\<rfloor>"
    by (simp add: int64_of_float64_def trunc_def)
qed

lemma Set_number_accepted:
  assumes "Set_number impl x t (Finite m) = (v, None)" and "0 < m"
  shows "\<exists>num. ParseFloat t = Inr num \<and> v = int64_of_float64 impl (float64_mul num (Finite m)) \<and>
           (\<forall>p. float64_mul num (Finite m) = Finite p \<and> p < 2 ^ 63 \<longrightarrow> 0 \<le> p \<and> v = \<lfloor>p\<rfloor>)"
proof -
  from assms(1) obtain num where p: "ParseFloat t = Inr num"
    and neg: "\<not> float64_less num (Finite 0)"
    and v: "v = int64_of_float64 impl (float64_mul num (Finite m))"
    by (auto simp: Set_number_def split: sum.splits if_splits)
  have "0 \<le> q \<and> v = \<lfloor>q\<rfloor>" if "float64_mul num (Finite m) = Finite q" "q < 2 ^ 63" for q
  proof -
    have "0 \<le> q" using product_nonneg[OF neg assms(2) that(1)] .
    with int64_of_nonneg(1)[OF this that(2), of impl] v that(1) show ?thesis by simp
  qed
  with p v show ?thesis by blast
qed

lemma UnmarshalJSON_cases:
  "SizeSuffix_UnmarshalJSON impl x (JSONString s) = SizeSuffix_Set impl x s"
  "- (2 ^ 63) \<le> i \<Longrightarrow> i < 2 ^ 63 \<Longrightarrow> SizeSuffix_UnmarshalJSON impl x (JSONInteger i) = (i, None)"
  by (simp_all add: SizeSuffix_UnmarshalJSON_def UnmarshalJSONFlag_def json_Unmarshal_string_def
      json_Unmarshal_int64_def)

section \<open>The scan of LimitAt\<close>

lemma latest_max:
  "latest b ss \<in> set (b # ss) \<and> (\<forall>s \<in> set (b # ss). pos_slot s \<le> pos_slot (latest b ss))"
proof (induction ss arbitrary: b)
  case Nil
  show ?case by simp
next
  case (Cons a ss)
  let ?b = "if pos_slot b \<le> pos_slot a then a else b"
  from Cons.IH[of ?b] have m: "latest ?b ss \<in> set (?b # ss)"
    and u: "\<And>s. s \<in> set (?b # ss) \<Longrightarrow> pos_slot s \<le> pos_slot (latest ?b ss)"
    by blast+
  have "pos_slot b \<le> pos_slot ?b" "pos_slot a \<le> pos_slot ?b" by auto
  with u[of ?b] have "pos_slot b \<le> pos_slot (latest ?b ss)" "pos_slot a \<le> pos_slot (latest ?b ss)"
    by auto
  with m u show ?case by auto
qed

lemma LimitAt_wraps:
  assumes "tbl \<noteq> []" and "\<forall>s \<in> set tbl. pos_now t < pos_slot s"
  shows "LimitAt tbl t \<in> set tbl \<and> (\<forall>s \<in> set tbl. pos_slot s \<le> pos_slot (LimitAt tbl t))"
proof -
  from assms(1) obtain a ss where tbl: "tbl = a # ss" by (cases tbl) auto
  from assms(2) have "filter (\<lambda>c. pos_slot c \<le> pos_now t) tbl = []"
    by (auto simp: filter_empty_conv)
  then have "LimitAt tbl t = latest a ss"
    by (simp add: LimitAt_def tbl)
  with latest_max[of a ss] tbl show ?thesis by simp
qed

lemma latest_last:
  "\<exists>pre post. b # ss = pre @ latest b ss # post \<and>
     (\<forall>s \<in> set post. pos_slot s < pos_slot (latest b ss))"
proof (induction ss arbitrary: b)
  case Nil
  have f: "[b] = [] @ latest b [] # [] \<and> (\<forall>s \<in> set []. pos_slot s < pos_slot (latest b []))"
    by simp
  show ?case by (rule exI[of _ "[]"], rule exI[of _ "[]"], rule f)
next
  case (Cons a ss)
  show ?case
  proof (cases "pos_slot b \<le> pos_slot a")
    case True
    then have L: "latest b (a # ss) = latest a ss" by simp
    from Cons.IH[of a] obtain pre post where
      e: "a # ss = pre @ latest a ss # post"
      and l: "\<forall>s \<in> set post. pos_slot s < pos_slot (latest a ss)"
      by blast
    have f: "b # a # ss = (b # pre) @ latest b (a # ss) # post \<and>
        (\<forall>s \<in> set post. pos_slot s < pos_slot (latest b (a # ss)))"
      unfolding L using e l by simp
    show ?thesis by (rule exI[of _ "b # pre"], rule exI[of _ post], rule f)
  next
    case False
    then have L: "latest b (a # ss) = latest b ss" by simp
    from Cons.IH[of b] obtain pre post where
      e: "b # ss = pre @ latest b ss # post"
      and l: "\<forall>s \<in> set post. pos_slot s < pos_slot (latest b ss)"
      by blast
    show ?thesis
    proof (cases pre)
      case Nil
      note i = e[unfolded Nil append_Nil list.inject]
      note lb = i[THEN conjunct1, symmetric] and p = i[THEN conjunct2, symmetric]
      from False have "pos_slot a < pos_slot b" by simp
      moreover from l have "\<forall>s \<in> set ss. pos_slot s < pos_slot b"
        unfolding lb p .
      ultimately have f: "b # a # ss = [] @ latest b (a # ss) # (a # ss) \<and>
          (\<forall>s \<in> set (a # ss). pos_slot s < pos_slot (latest b (a # ss)))"
        unfolding L lb by simp
      show ?thesis by (rule exI[of _ "[]"], rule exI[of _ "a # ss"], rule f)
    next
      case (Cons c pre')
      note ss = e[unfolded Cons append_Cons list.inject, THEN conjunct2]
      have f: "b # a # ss = (b # a # pre') @ latest b (a # ss) # post \<and>
          (\<forall>s \<in> set post. pos_slot s < pos_slot (latest b (a # ss)))"
        unfolding L using ss l by simp
      show ?thesis by (rule exI[of _ "b # a # pre'"], rule exI[of _ post], rule f)
    qed
  qed
qed

lemma LimitAt_wraps_last:
  assumes "tbl \<noteq> []" and "\<forall>s \<in> set tbl. pos_now t < pos_slot s"
  shows "\<exists>pre post. tbl = pre @ LimitAt tbl t # post \<and>
           (\<forall>s \<in> set post. pos_slot s < pos_slot (LimitAt tbl t))"
proof -
  from assms(1) obtain a ss where tbl: "tbl = a # ss" by (cases tbl) auto
  from assms(2) have "filter (\<lambda>c. pos_slot c \<le> pos_now t) tbl = []"
    by (auto simp: filter_empty_conv)
  then have "LimitAt tbl t = latest a ss"
    by (simp add: LimitAt_def tbl)
  with latest_last[of a ss] tbl show ?thesis by simp
qed

section \<open>Formatting and parsing back\<close>

text \<open>
  C1, as amended. For every \<open>v = k * 1024^n\<close> with \<open>0 \<le> k < 1024\<close>, \<open>1 \<le> n \<le> 6\<close> and
  \<open>v < 2^63\<close>, formatting \<open>v\<close> with String and parsing the result with Set stores \<open>v\<close>
  again, in src/fs/sizesuffix.go and in src/unnamed/part\_000 alike.
\<close>

theorem Set_String_roundtrip:
  assumes "0 \<le> k" and "k < 1024" and "1 \<le> n" and "n \<le> 6" and "k * 1024 ^ n < 2 ^ 63"
  shows "SizeSuffix_Set impl x (SizeSuffix_String (k * 1024 ^ n)) = (k * 1024 ^ n, None) \<and>
         SizeSuffix_Set_part000 impl x (SizeSuffix_String_part000 (k * 1024 ^ n))
           = (k * 1024 ^ n, None)"
proof (cases "k = 0")
  case True
  then show ?thesis by (simp add: Set_String_zero)
next
  case False
  with assms have k: "1 \<le> k" by simp
  note s = String_units[OF k assms(2)] String_part000_units[OF k assms(2)]
  note u = Set_of_unit[OF assms(1,2), of _ _ impl x]
  from unit_cases[OF assms(3,4)] show ?thesis
  proof (elim disjE)
    assume n: "n = 1"
    with assms(5) have "k * 2 ^ 10 < 2 ^ 63" by simp
    from u[OF _ this, of "CHR ''K''"] show ?thesis
      using s(1,7) by (simp add: n symbolMultiplier_capitals)
  next
    assume n: "n = 2"
    with assms(5) have "k * 2 ^ 20 < 2 ^ 63" by simp
    from u[OF _ this, of "CHR ''M''"] show ?thesis
      using s(2,8) by (simp add: n symbolMultiplier_capitals)
  next
    assume n: "n = 3"
    with assms(5) have "k * 2 ^ 30 < 2 ^ 63" by simp
    from u[OF _ this, of "CHR ''G''"] show ?thesis
      using s(3,9) by (simp add: n symbolMultiplier_capitals)
  next
    assume n: "n = 4"
    with assms(5) have "k * 2 ^ 40 < 2 ^ 63" by simp
    from u[OF _ this, of "CHR ''T''"] show ?thesis
      using s(4,10) by (simp add: n symbolMultiplier_capitals)
  next
    assume n: "n = 5"
    with assms(5) have "k * 2 ^ 50 < 2 ^ 63" by simp
    from u[OF _ this, of "CHR ''P''"] show ?thesis
      using s(5,11) by (simp add: n symbolMultiplier_capitals)
  next
    assume n: "n = 6"
    with assms(5) have "k * 2 ^ 60 < 2 ^ 63" by simp
    from u[OF _ this, of "CHR ''E''"] show ?thesis
      using s(6,12) by (simp add: n symbolMultiplier_capitals)
  qed
qed

text \<open>The round trip at \<open>v = 5 * 1024^2\<close>.\<close>

theorem Set_String_roundtrip_witness:
  "(0 :: int) \<le> 5 \<and> (5 :: int) < 1024 \<and> (1 :: nat) \<le> 2 \<and> (2 :: nat) \<le> 6 \<and>
   (5 :: int) * 1024 ^ 2 < 2 ^ 63 \<and>
   SizeSuffix_Set (\<lambda>_. 0) 0 (SizeSuffix_String (5 * 1024 ^ 2)) = (5 * 1024 ^ 2, None) \<and>
   SizeSuffix_Set_part000 (\<lambda>_. 0) 0 (SizeSuffix_String_part000 (5 * 1024 ^ 2)) = (5 * 1024 ^ 2, None)"
  using Set_String_roundtrip[of 5 2 "\<lambda>_. 0" 0] by simp

text \<open>
  As stated, with \<open>n = 0\<close> and any \<open>k\<close> allowed, C1 fails. \<open>v = 1\<close> is printed as \<open>1\<close>, and
  a text that ends in a digit is scaled by 1024 when parsed. \<open>v = 1048577 * 1024\<close> is
  printed with three decimals as \<open>1.000Gi\<close>, which parses to \<open>1024^3\<close>.
\<close>

theorem roundtrip_fails:
  "(1 :: int) = 1 * 1024 ^ 0 \<and>
   SizeSuffix_String 1 = ''1'' \<and>
   SizeSuffix_Set (\<lambda>_. 0) 0 (SizeSuffix_String 1) = (1024, None) \<and>
   SizeSuffix_Set_part000 (\<lambda>_. 0) 0 (SizeSuffix_String_part000 1) = (1024, None) \<and>
   (1073742848 :: int) = 1048577 * 1024 ^ 1 \<and>
   SizeSuffix_String 1073742848 = ''1.000Gi'' \<and>
   SizeSuffix_Set (\<lambda>_. 0) 0 (SizeSuffix_String 1073742848) = (1073741824, None)"
proof -
  have a: "SizeSuffix_String 1 = ''1''" "SizeSuffix_String_part000 1 = ''1''"
    by (simp_all add: string_defs)
  have b: "SizeSuffix_Set (\<lambda>_. 0) 0 ''1'' = (1024, None)"
    "SizeSuffix_Set_part000 (\<lambda>_. 0) 0 ''1'' = (1024, None)"
    by (simp_all add: set_defs eval_defs)
  have c: "SizeSuffix_String 1073742848 = ''1.000Gi''"
    by (simp add: string_defs round_dyadic_examples)
  have d: "SizeSuffix_Set (\<lambda>_. 0) 0 ''1.000Gi'' = (1073741824, None)"
    by (simp add: set_defs eval_defs)
  show ?thesis by (simp add: a b c d)
qed

section \<open>The lookup in the weekly schedule\<close>

text \<open>
  C2, as amended. For the schedule Mon-11:00, Tue-13:40, Fri-00:00, Sat-10:00, Sun-23:00,
  LimitAt at Monday 10:59 returns the Sun-23:00 slot, because that slot has the largest
  week position among the slots that are not after the query (Sunday is day 0, so its
  position 1380 is below the query's 2099). The wrap-around is a different case, and it
  holds in general: when every slot of a non-empty table is after the query, LimitAt
  returns a slot of the table with the largest position overall, the last one in table
  order among those of that position. On the same schedule this is the case at Sunday
  10:00, where LimitAt returns the Sat-10:00 slot.
\<close>

theorem LimitAt_monday_10_59:
  "LimitAt test_table monday_10_59 = \<lparr>dayOfWeek = 0, timeOfDay = 2300, tx = 666 * 1024, rx = 66 * 1024\<rparr> \<and>
   pos_slot (LimitAt test_table monday_10_59) \<le> pos_now monday_10_59 \<and>
   (\<forall>s \<in> set test_table. pos_slot s \<le> pos_now monday_10_59 \<longrightarrow>
        pos_slot s \<le> pos_slot (LimitAt test_table monday_10_59)) \<and>
   (tbl \<noteq> [] \<and> (\<forall>s \<in> set tbl. pos_now t < pos_slot s) \<longrightarrow>
      LimitAt tbl t \<in> set tbl \<and> (\<forall>s \<in> set tbl. pos_slot s \<le> pos_slot (LimitAt tbl t)) \<and>
      (\<exists>pre post. tbl = pre @ LimitAt tbl t # post \<and>
         (\<forall>s \<in> set post. pos_slot s < pos_slot (LimitAt tbl t)))) \<and>
   LimitAt test_table sunday_10_00 = \<lparr>dayOfWeek = 6, timeOfDay = 1000, tx = - 1, rx = 100 * 1024\<rparr>"
proof -
  have r: "LimitAt test_table monday_10_59 =
      \<lparr>dayOfWeek = 0, timeOfDay = 2300, tx = 666 * 1024, rx = 66 * 1024\<rparr>"
    by (simp add: sched_defs)
  have a: "pos_slot (LimitAt test_table monday_10_59) \<le> pos_now monday_10_59"
    unfolding r by (simp add: sched_defs)
  have b: "\<forall>s \<in> set test_table. pos_slot s \<le> pos_now monday_10_59 \<longrightarrow>
        pos_slot s \<le> pos_slot (LimitAt test_table monday_10_59)"
    unfolding r by (simp add: sched_defs)
  have c: "LimitAt test_table sunday_10_00 =
      \<lparr>dayOfWeek = 6, timeOfDay = 1000, tx = - 1, rx = 100 * 1024\<rparr>"
    by (simp add: sched_defs)
  from LimitAt_wraps[of tbl t] LimitAt_wraps_last[of tbl t]
  have d: "tbl \<noteq> [] \<and> (\<forall>s \<in> set tbl. pos_now t < pos_slot s) \<longrightarrow>
      LimitAt tbl t \<in> set tbl \<and> (\<forall>s \<in> set tbl. pos_slot s \<le> pos_slot (LimitAt tbl t)) \<and>
      (\<exists>pre post. tbl = pre @ LimitAt tbl t # post \<and>
         (\<forall>s \<in> set post. pos_slot s < pos_slot (LimitAt tbl t)))"
    by blast
  from r a b c d show ?thesis by blast
qed

text \<open>
  The wrap-around on the five slots of the schedule, queried on Sunday at 10:00 (position
  600, below the position of every slot); two slots of one position, of which the second
  is returned; and the example itself.
\<close>

theorem LimitAt_monday_10_59_witness:
  "test_table \<noteq> [] \<and>
   pos_now sunday_10_00 = 600 \<and>
   map pos_slot test_table = [2100, 3700, 7200, 9240, 1380] \<and>
   LimitAt test_table sunday_10_00 = \<lparr>dayOfWeek = 6, timeOfDay = 1000, tx = - 1, rx = 100 * 1024\<rparr> \<and>
   LimitAt test_table sunday_10_00 \<in> set test_table \<and>
   pos_slot (LimitAt test_table sunday_10_00) = 9240 \<and>
   LimitAt [\<lparr>dayOfWeek = 1, timeOfDay = 1100, tx = 1, rx = 1\<rparr>,
            \<lparr>dayOfWeek = 1, timeOfDay = 1100, tx = 2, rx = 2\<rparr>] sunday_10_00
     = \<lparr>dayOfWeek = 1, timeOfDay = 1100, tx = 2, rx = 2\<rparr> \<and>
   pos_slot \<lparr>dayOfWeek = 0, timeOfDay = 2300, tx = 666 * 1024, rx = 66 * 1024\<rparr> \<le> pos_now monday_10_59 \<and>
   LimitAt test_table monday_10_59 = \<lparr>dayOfWeek = 0, timeOfDay = 2300, tx = 666 * 1024, rx = 66 * 1024\<rparr>"
proof -
  have e: "LimitAt [\<lparr>dayOfWeek = 1, timeOfDay = 1100, tx = 1, rx = 1\<rparr>,
            \<lparr>dayOfWeek = 1, timeOfDay = 1100, tx = 2, rx = 2\<rparr>] sunday_10_00
     = \<lparr>dayOfWeek = 1, timeOfDay = 1100, tx = 2, rx = 2\<rparr>"
    by (simp add: sched_defs)
  have h: "test_table \<noteq> [] \<and> (\<forall>s \<in> set test_table. pos_now sunday_10_00 < pos_slot s)"
    by (simp add: sched_defs)
  have p: "pos_now sunday_10_00 = 600"
    "map pos_slot test_table = [2100, 3700, 7200, 9240, 1380]"
    "pos_slot \<lparr>dayOfWeek = 6, timeOfDay = 1000, tx = - 1, rx = 100 * 1024\<rparr> = 9240"
    "pos_slot \<lparr>dayOfWeek = 0, timeOfDay = 2300, tx = 666 * 1024, rx = 66 * 1024\<rparr> \<le> pos_now monday_10_59"
    by (simp_all add: sched_defs)
  note t = LimitAt_monday_10_59[of test_table sunday_10_00]
  from t h have m: "LimitAt test_table sunday_10_00 \<in> set test_table" by blast
  from t have c: "LimitAt test_table sunday_10_00 =
      \<lparr>dayOfWeek = 6, timeOfDay = 1000, tx = - 1, rx = 100 * 1024\<rparr>" by blast
  from t have r: "LimitAt test_table monday_10_59 =
      \<lparr>dayOfWeek = 0, timeOfDay = 2300, tx = 666 * 1024, rx = 66 * 1024\<rparr>" by blast
  from h p m c r e show ?thesis by simp
qed

text \<open>
  As stated, C2 fails: Monday 10:59 does not precede every slot, since Sun-23:00 lies
  before it in the week; and the slot returned is not the one with the largest position
  overall, which is Sat-10:00.
\<close>

theorem monday_10_59_not_before_every_slot:
  "pos_now monday_10_59 = 2099 \<and>
   pos_slot \<lparr>dayOfWeek = 0, timeOfDay = 2300, tx = 666 * 1024, rx = 66 * 1024\<rparr> = 1380 \<and>
   pos_slot \<lparr>dayOfWeek = 6, timeOfDay = 1000, tx = - 1, rx = 100 * 1024\<rparr> = 9240 \<and>
   \<not> pos_now monday_10_59 < pos_slot \<lparr>dayOfWeek = 0, timeOfDay = 2300, tx = 666 * 1024, rx = 66 * 1024\<rparr> \<and>
   LimitAt test_table monday_10_59 \<noteq> \<lparr>dayOfWeek = 6, timeOfDay = 1000, tx = - 1, rx = 100 * 1024\<rparr>"
  by (simp add: sched_defs)

section \<open>A time without a day\<close>

text \<open>
  C3. Parsing the single token \<open>10:20,666\<close> gives exactly seven slots, one per day from
  Sunday (0) to Saturday (6) in this order, each at time 1020 with Tx = Rx = 666 * 1024.
\<close>

theorem Set_time_without_day:
  "WeeklySchedule_Set impl x ''10:20,666'' =
     ([\<lparr>dayOfWeek = 0, timeOfDay = 1020, tx = 666 * 1024, rx = 666 * 1024\<rparr>,
       \<lparr>dayOfWeek = 1, timeOfDay = 1020, tx = 666 * 1024, rx = 666 * 1024\<rparr>,
       \<lparr>dayOfWeek = 2, timeOfDay = 1020, tx = 666 * 1024, rx = 666 * 1024\<rparr>,
       \<lparr>dayOfWeek = 3, timeOfDay = 1020, tx = 666 * 1024, rx = 666 * 1024\<rparr>,
       \<lparr>dayOfWeek = 4, timeOfDay = 1020, tx = 666 * 1024, rx = 666 * 1024\<rparr>,
       \<lparr>dayOfWeek = 5, timeOfDay = 1020, tx = 666 * 1024, rx = 666 * 1024\<rparr>,
       \<lparr>dayOfWeek = 6, timeOfDay = 1020, tx = 666 * 1024, rx = 666 * 1024\<rparr>], None)"
  by (simp add: parse_defs set_defs eval_defs Let_def upt_week)

section \<open>The examples of String\<close>

text \<open>
  C4, as amended. String(1023) is \<open>1023\<close> in both versions. In src/unnamed/part\_000,
  String(1024) is \<open>1K\<close>, String(1024*1024) is \<open>1M\<close>, and the int64 of the float64
  \<open>10.1 * 1024^3\<close>, which is 10844792422, is printed as \<open>10.100G\<close>. In
  src/fs/sizesuffix.go the suffix is the binary prefix: \<open>1Ki\<close>, \<open>1Mi\<close> and \<open>10.100Gi\<close>.
\<close>

theorem String_examples:
  "SizeSuffix_String_part000 1023 = ''1023'' \<and>
   SizeSuffix_String_part000 1024 = ''1K'' \<and>
   SizeSuffix_String_part000 (1024 * 1024) = ''1M'' \<and>
   int64_of_float64 impl (float64_round (101 / 10 * 1024 ^ 3)) = 10844792422 \<and>
   SizeSuffix_String_part000 10844792422 = ''10.100G'' \<and>
   SizeSuffix_String 1023 = ''1023'' \<and>
   SizeSuffix_String 1024 = ''1Ki'' \<and>
   SizeSuffix_String (1024 * 1024) = ''1Mi'' \<and>
   SizeSuffix_String 10844792422 = ''10.100Gi''"
proof -
  have a: "SizeSuffix_String_part000 1023 = ''1023''" "SizeSuffix_String 1023 = ''1023''"
    by (simp_all add: string_defs)
  have b: "SizeSuffix_String_part000 1024 = ''1K''" "SizeSuffix_String 1024 = ''1Ki''"
    by (simp_all add: string_defs)
  have c: "SizeSuffix_String_part000 (1024 * 1024) = ''1M''"
    "SizeSuffix_String (1024 * 1024) = ''1Mi''"
    by (simp_all add: string_defs)
  have d: "int64_of_float64 impl (float64_round (101 / 10 * 1024 ^ 3)) = 10844792422"
    by (simp add: round_10_1_Gi int64_of_float64_def trunc_def)
  have e: "SizeSuffix_String_part000 10844792422 = ''10.100G''"
    "SizeSuffix_String 10844792422 = ''10.100Gi''"
    by (simp_all add: string_defs round_dyadic_examples)
  from a b c d e show ?thesis by simp
qed

text \<open>
  As stated, C4 fails on src/fs/sizesuffix.go, whose String never ends in a bare
  \<open>K\<close>, \<open>M\<close> or \<open>G\<close>.
\<close>

theorem String_binary_prefix:
  "SizeSuffix_String 1024 = ''1Ki'' \<and> SizeSuffix_String 1024 \<noteq> ''1K'' \<and>
   SizeSuffix_String (1024 * 1024) \<noteq> ''1M'' \<and>
   SizeSuffix_String 10844792422 \<noteq> ''10.100G''"
  by (simp add: string_defs round_dyadic_examples)

section \<open>The forms with an i after the multiplier letter\<close>

text \<open>
  C5, as amended. For every prefix \<open>p\<close> and every letter \<open>L\<close> among k, m, g, t, p, e in
  either case, the Set of src/fs/sizesuffix.go returns for \<open>pLi\<close>, \<open>pLI\<close>, \<open>pLiB\<close> and \<open>pLib\<close>
  exactly what it returns for \<open>pL\<close>: the number \<open>p\<close> scaled by the power of 1024 that \<open>L\<close>
  selects, or the same error. After b or B an i is a bad suffix, and the Set of
  src/unnamed/part\_000 refuses every form that ends in i or I.
\<close>

theorem Set_binary_prefix_forms:
  assumes "L \<in> set ''kKmMgGtTpPeE''"
  shows "SizeSuffix_Set impl x (p @ [L, CHR ''i'']) = SizeSuffix_Set impl x (p @ [L]) \<and>
         SizeSuffix_Set impl x (p @ [L, CHR ''I'']) = SizeSuffix_Set impl x (p @ [L]) \<and>
         SizeSuffix_Set impl x (p @ [L, CHR ''i'', CHR ''B'']) = SizeSuffix_Set impl x (p @ [L]) \<and>
         SizeSuffix_Set impl x (p @ [L, CHR ''i'', CHR ''b'']) = SizeSuffix_Set impl x (p @ [L]) \<and>
         SizeSuffix_Set impl x (p @ [L]) = Set_number impl x p (snd (symbolMultiplier L)) \<and>
         snd (symbolMultiplier L) \<in> Finite ` {2 ^ 10, 2 ^ 20, 2 ^ 30, 2 ^ 40, 2 ^ 50, 2 ^ 60} \<and>
         SizeSuffix_Set_part000 impl x (p @ [L, CHR ''i'']) = (x, Some (ErrBadSuffix CHR ''i'')) \<and>
         SizeSuffix_Set_part000 impl x (p @ [L, CHR ''I'']) = (x, Some (ErrBadSuffix CHR ''I'')) \<and>
         (b \<in> set ''bB'' \<longrightarrow>
            SizeSuffix_Set impl x (p @ [b, CHR ''i'']) = (x, Some (ErrBadSuffix b)) \<and>
            SizeSuffix_Set impl x (p @ [b, CHR ''I'']) = (x, Some (ErrBadSuffix b)))"
proof -
  have "snd (symbolMultiplier L) \<in> Finite ` {2 ^ 10, 2 ^ 20, 2 ^ 30, 2 ^ 40, 2 ^ 50, 2 ^ 60}"
    using assms by (auto simp: symbolMultiplier_def float64_of_int_consts)
  then show ?thesis
    using assms by (simp add: Set_L Set_Li Set_LiB Set_part000_Li Set_bi)
qed

text \<open>The forms of \<open>1K\<close>, all of which store 1024.\<close>

theorem Set_binary_prefix_forms_witness:
  "CHR ''K'' \<in> set ''kKmMgGtTpPeE'' \<and>
   SizeSuffix_Set (\<lambda>_. 0) 0 ''1K'' = (1024, None) \<and>
   SizeSuffix_Set (\<lambda>_. 0) 0 ''1Ki'' = (1024, None) \<and>
   SizeSuffix_Set (\<lambda>_. 0) 0 ''1KI'' = (1024, None) \<and>
   SizeSuffix_Set (\<lambda>_. 0) 0 ''1KiB'' = (1024, None) \<and>
   SizeSuffix_Set (\<lambda>_. 0) 0 ''1Kib'' = (1024, None)"
proof -
  have a: "CHR ''K'' \<in> set ''kKmMgGtTpPeE''" by simp
  have b: "SizeSuffix_Set (\<lambda>_. 0) 0 ''1K'' = (1024, None)"
    by (simp add: set_defs eval_defs)
  from Set_binary_prefix_forms[OF a, of "\<lambda>_. 0" 0 "''1''" "CHR ''b''"] a b
  show ?thesis by simp
qed

text \<open>
  As stated, C5 fails for the letter b: \<open>1b\<close> stores 1, and \<open>1bi\<close> is a bad suffix. In
  src/unnamed/part\_000 \<open>1Ki\<close> is a bad suffix as well.
\<close>

theorem Set_rejects_bi:
  "SizeSuffix_Set (\<lambda>_. 0) 0 ''1b'' = (1, None) \<and>
   SizeSuffix_Set (\<lambda>_. 0) 0 ''1bi'' = (0, Some (ErrBadSuffix CHR ''b'')) \<and>
   SizeSuffix_Set_part000 (\<lambda>_. 0) 0 ''1K'' = (1024, None) \<and>
   SizeSuffix_Set_part000 (\<lambda>_. 0) 0 ''1Ki'' = (0, Some (ErrBadSuffix CHR ''i''))"
  by (simp add: set_defs eval_defs)

section \<open>The stored byte count\<close>

text \<open>
  C6, as amended. For every input other than \<open>off\<close> that Set accepts, the stored count is
  the float64 product of the parsed number and the selected multiplier (1 or a power
  of 1024) converted to int64: whenever that product is below \<open>2^63\<close> it is not negative
  and the count is its integer part, the fraction being cut off and not rounded. Both
  versions of Set do this.
\<close>

theorem Set_stores_truncated_product:
  assumes "ToLower s \<noteq> ''off''"
  shows "(SizeSuffix_Set impl x s = (v, None) \<longrightarrow>
          (\<exists>n m num. Set_switch s = Inr (n, Finite m) \<and>
             m \<in> {1, 2 ^ 10, 2 ^ 20, 2 ^ 30, 2 ^ 40, 2 ^ 50, 2 ^ 60} \<and>
             ParseFloat (take (length s - n) s) = Inr num \<and>
             v = int64_of_float64 impl (float64_mul num (Finite m)) \<and>
             (\<forall>p. float64_mul num (Finite m) = Finite p \<and> p < 2 ^ 63 \<longrightarrow> 0 \<le> p \<and> v = \<lfloor>p\<rfloor>))) \<and>
         (SizeSuffix_Set_part000 impl x s = (v, None) \<longrightarrow>
          (\<exists>n m num. Set_switch_part000 s = Inr (n, Finite m) \<and>
             m \<in> {1, 2 ^ 10, 2 ^ 20, 2 ^ 30, 2 ^ 40, 2 ^ 50, 2 ^ 60} \<and>
             ParseFloat (take (length s - n) s) = Inr num \<and>
             v = int64_of_float64 impl (float64_mul num (Finite m)) \<and>
             (\<forall>p. float64_mul num (Finite m) = Finite p \<and> p < 2 ^ 63 \<longrightarrow> 0 \<le> p \<and> v = \<lfloor>p\<rfloor>)))"
proof (intro conjI impI)
  assume a: "SizeSuffix_Set impl x s = (v, None)"
  with assms obtain n mult where sw: "Set_switch s = Inr (n, mult)"
    and nb: "Set_number impl x (take (length s - n) s) mult = (v, None)"
    by (auto simp: SizeSuffix_Set_def split: if_splits sum.splits)
  from Set_switch_range[OF sw] obtain m where m: "mult = Finite m" "0 < m"
    "m \<in> {1, 2 ^ 10, 2 ^ 20, 2 ^ 30, 2 ^ 40, 2 ^ 50, 2 ^ 60}"
    by blast
  from Set_number_accepted[OF nb[unfolded m(1)] m(2)] sw m
  show "\<exists>n m num. Set_switch s = Inr (n, Finite m) \<and>
             m \<in> {1, 2 ^ 10, 2 ^ 20, 2 ^ 30, 2 ^ 40, 2 ^ 50, 2 ^ 60} \<and>
             ParseFloat (take (length s - n) s) = Inr num \<and>
             v = int64_of_float64 impl (float64_mul num (Finite m)) \<and>
             (\<forall>p. float64_mul num (Finite m) = Finite p \<and> p < 2 ^ 63 \<longrightarrow> 0 \<le> p \<and> v = \<lfloor>p\<rfloor>)"
    by blast
next
  assume a: "SizeSuffix_Set_part000 impl x s = (v, None)"
  with assms obtain n mult where sw: "Set_switch_part000 s = Inr (n, mult)"
    and nb: "Set_number impl x (take (length s - n) s) mult = (v, None)"
    by (auto simp: SizeSuffix_Set_part000_def split: if_splits sum.splits)
  from Set_switch_part000_range[OF sw] obtain m where m: "mult = Finite m" "0 < m"
    "m \<in> {1, 2 ^ 10, 2 ^ 20, 2 ^ 30, 2 ^ 40, 2 ^ 50, 2 ^ 60}"
    by blast
  from Set_number_accepted[OF nb[unfolded m(1)] m(2)] sw m
  show "\<exists>n m num. Set_switch_part000 s = Inr (n, Finite m) \<and>
             m \<in> {1, 2 ^ 10, 2 ^ 20, 2 ^ 30, 2 ^ 40, 2 ^ 50, 2 ^ 60} \<and>
             ParseFloat (take (length s - n) s) = Inr num \<and>
             v = int64_of_float64 impl (float64_mul num (Finite m)) \<and>
             (\<forall>p. float64_mul num (Finite m) = Finite p \<and> p < 2 ^ 63 \<longrightarrow> 0 \<le> p \<and> v = \<lfloor>p\<rfloor>)"
    by blast
qed

text \<open>The input \<open>1.5b\<close>, which stores 1.\<close>

theorem Set_stores_truncated_product_witness:
  "ToLower ''1.5b'' \<noteq> ''off'' \<and>
   SizeSuffix_Set (\<lambda>_. 0) 0 ''1.5b'' = (1, None) \<and>
   (\<exists>n m num. Set_switch ''1.5b'' = Inr (n, Finite m) \<and>
      ParseFloat (take (length ''1.5b'' - n) ''1.5b'') = Inr num \<and>
      (1 :: int) = int64_of_float64 (\<lambda>_. 0) (float64_mul num (Finite m)))"
proof -
  have a: "ToLower ''1.5b'' \<noteq> ''off''" by (simp add: ToLower_def lower_def)
  have b: "SizeSuffix_Set (\<lambda>_. 0) 0 ''1.5b'' = (1, None)"
    by (simp add: set_defs eval_defs round_dyadic_examples)
  from Set_stores_truncated_product[OF a, of "\<lambda>_. 0" 0 1] a b show ?thesis by blast
qed

text \<open>
  As stated, C6 fails: \<open>1.5b\<close> is accepted with the number 1.5 and the multiplier 1,
  and stores 1, where rounding to the nearest integer gives 2.
\<close>

theorem Set_truncates:
  "SizeSuffix_Set (\<lambda>_. 0) 0 ''1.5b'' = (1, None) \<and>
   Set_switch ''1.5b'' = Inr (1, Finite 1) \<and>
   ParseFloat ''1.5'' = Inr (Finite (3 / 2)) \<and>
   round (3 / 2 * 1 :: rat) = 2"
proof -
  have "round (3 / 2 :: rat) = 2" by (simp add: round_def)
  then show ?thesis by (simp add: set_defs eval_defs round_dyadic_examples)
qed

section \<open>The values that can be stored\<close>

text \<open>
  C7, as amended. A value that Set stores is \<open>-1\<close> exactly when the input is \<open>off\<close> in some
  case; for any other accepted input it is not negative whenever the scaled float64 is
  below \<open>2^63\<close> (beyond that the conversion is left to the implementation). UnmarshalJSON
  of a JSON string is Set of its text, and UnmarshalJSON of a JSON number in int64
  stores the number as it is, negative numbers included.
\<close>

theorem stored_values:
  "(SizeSuffix_Set impl x s = (v, None) \<longrightarrow>
      (ToLower s = ''off'' \<and> v = - 1) \<or>
      (ToLower s \<noteq> ''off'' \<and>
       (\<exists>n mult num. Set_switch s = Inr (n, mult) \<and>
          ParseFloat (take (length s - n) s) = Inr num \<and>
          v = int64_of_float64 impl (float64_mul num mult) \<and>
          (\<forall>p. float64_mul num mult = Finite p \<and> p < 2 ^ 63 \<longrightarrow> 0 \<le> v)))) \<and>
   SizeSuffix_UnmarshalJSON impl x (JSONString s) = SizeSuffix_Set impl x s \<and>
   (- (2 ^ 63) \<le> i \<and> i < 2 ^ 63 \<longrightarrow> SizeSuffix_UnmarshalJSON impl x (JSONInteger i) = (i, None))"
proof (intro conjI impI)
  assume a: "SizeSuffix_Set impl x s = (v, None)"
  show "(ToLower s = ''off'' \<and> v = - 1) \<or>
      (ToLower s \<noteq> ''off'' \<and>
       (\<exists>n mult num. Set_switch s = Inr (n, mult) \<and>
          ParseFloat (take (length s - n) s) = Inr num \<and>
          v = int64_of_float64 impl (float64_mul num mult) \<and>
          (\<forall>p. float64_mul num mult = Finite p \<and> p < 2 ^ 63 \<longrightarrow> 0 \<le> v)))"
  proof (cases "ToLower s = ''off''")
    case True
    with a show ?thesis by (simp add: SizeSuffix_Set_def split: if_splits)
  next
    case False
    with a obtain n mult where sw: "Set_switch s = Inr (n, mult)"
      and nb: "Set_number impl x (take (length s - n) s) mult = (v, None)"
      by (auto simp: SizeSuffix_Set_def split: if_splits sum.splits)
    from Set_switch_range[OF sw] obtain m where m: "mult = Finite m" "0 < m"
      by blast
    from Set_number_accepted[OF nb[unfolded m(1)] m(2)] sw m(1) False
    show ?thesis by fastforce
  qed
qed (simp_all add: UnmarshalJSON_cases)

text \<open>The inputs \<open>off\<close> and \<open>1K\<close>, the JSON string \<open>1K\<close> and the JSON number \<open>-5\<close>.\<close>

theorem stored_values_witness:
  "SizeSuffix_Set (\<lambda>_. 0) 0 ''off'' = (- 1, None) \<and> ToLower ''off'' = ''off'' \<and>
   SizeSuffix_Set (\<lambda>_. 0) 0 ''1K'' = (1024, None) \<and> ToLower ''1K'' \<noteq> ''off'' \<and>
   SizeSuffix_UnmarshalJSON (\<lambda>_. 0) 0 (JSONString ''1K'') = (1024, None) \<and>
   - (2 ^ 63) \<le> (- 5 :: int) \<and> (- 5 :: int) < 2 ^ 63 \<and>
   SizeSuffix_UnmarshalJSON (\<lambda>_. 0) 0 (JSONInteger (- 5)) = (- 5, None)"
proof -
  have a: "SizeSuffix_Set (\<lambda>_. 0) 0 ''off'' = (- 1, None)"
    by (simp add: SizeSuffix_Set_def ToLower_def lower_def)
  have b: "SizeSuffix_Set (\<lambda>_. 0) 0 ''1K'' = (1024, None)"
    by (simp add: set_defs eval_defs)
  have c: "ToLower ''off'' = ''off''" "ToLower ''1K'' \<noteq> ''off''"
    by (simp_all add: ToLower_def lower_def)
  from a b c stored_values[of "\<lambda>_. 0" 0 "''1K''" 1024 "- 5"]
    stored_values[of "\<lambda>_. 0" 0 "''off''" "- 1" "- 5"]
  show ?thesis by simp
qed

text \<open>As stated, C7 fails: the JSON number \<open>-5\<close> is stored as \<open>-5\<close>.\<close>

theorem negative_json_number:
  "SizeSuffix_UnmarshalJSON (\<lambda>_. 0) 0 (JSONInteger (- 5)) = (- 5, None) \<and>
   (- 5 :: int) \<noteq> - 1 \<and> \<not> (0 :: int) \<le> - 5"
  by (simp add: UnmarshalJSON_cases)

section \<open>Errors leave the target alone\<close>

text \<open>
  C8. Whenever Set returns an error, the target keeps the value it had before the call:
  for the Set of src/fs/sizesuffix.go, for the Set of src/unnamed/part\_000, and for the
  Set of the schedule as the specification describes it.
\<close>

theorem Set_error_leaves_target:
  "(snd (SizeSuffix_Set impl x s) \<noteq> None \<longrightarrow> fst (SizeSuffix_Set impl x s) = x) \<and>
   (snd (SizeSuffix_Set_part000 impl x s') \<noteq> None \<longrightarrow>
      fst (SizeSuffix_Set_part000 impl x s') = x) \<and>
   (snd (WeeklySchedule_Set impl tbl txt) \<noteq> None \<longrightarrow>
      fst (WeeklySchedule_Set impl tbl txt) = tbl)"
  by (simp add: SizeSuffix_Set_def SizeSuffix_Set_part000_def Set_number_def WeeklySchedule_Set_def
      split: sum.splits prod.splits)

text \<open>The inputs \<open>1q\<close>, \<open>-1K\<close> and \<open>Mon-10:20,bad\<close> on targets that hold a value.\<close>

theorem Set_error_leaves_target_witness:
  "snd (SizeSuffix_Set (\<lambda>_. 0) 7 ''1q'') \<noteq> None \<and>
   fst (SizeSuffix_Set (\<lambda>_. 0) 7 ''1q'') = 7 \<and>
   snd (SizeSuffix_Set_part000 (\<lambda>_. 0) 7 ''-1K'') \<noteq> None \<and>
   fst (SizeSuffix_Set_part000 (\<lambda>_. 0) 7 ''-1K'') = 7 \<and>
   snd (WeeklySchedule_Set (\<lambda>_. 0) [\<lparr>dayOfWeek = 1, timeOfDay = 0, tx = 5, rx = 5\<rparr>]
          ''Mon-10:20,bad'') \<noteq> None \<and>
   fst (WeeklySchedule_Set (\<lambda>_. 0) [\<lparr>dayOfWeek = 1, timeOfDay = 0, tx = 5, rx = 5\<rparr>]
          ''Mon-10:20,bad'') = [\<lparr>dayOfWeek = 1, timeOfDay = 0, tx = 5, rx = 5\<rparr>]"
proof -
  let ?tbl = "[\<lparr>dayOfWeek = 1, timeOfDay = 0, tx = 5, rx = 5\<rparr>]"
  have a: "snd (SizeSuffix_Set (\<lambda>_. 0) 7 ''1q'') \<noteq> None"
    by (simp add: set_defs eval_defs)
  have b: "snd (SizeSuffix_Set_part000 (\<lambda>_. 0) 7 ''-1K'') \<noteq> None"
    by (simp add: set_defs eval_defs)
  have c: "snd (WeeklySchedule_Set (\<lambda>_. 0) ?tbl ''Mon-10:20,bad'') \<noteq> None"
    by (simp add: WeeklySchedule_Set_def tokens_def is_space_def parse_token_def parse_day_def
        parse_time_def parse_int_def parse_rate_pair_def parse_rate_def set_defs eval_defs Let_def)
  from a b c Set_error_leaves_target[of "\<lambda>_. 0" 7 "''1q''" "''-1K''" ?tbl "''Mon-10:20,bad''"]
  show ?thesis by simp
qed

section \<open>Marshalling\<close>

text \<open>
  C9, as amended. JSON marshalling of a SizeSuffix writes its int64 as a JSON number,
  never a JSON string; unmarshalling that number stores the value again.
\<close>

theorem Marshal_is_number:
  "SizeSuffix_Marshal x = JSONInteger x \<and> SizeSuffix_Marshal x \<noteq> JSONString s \<and>
   (- (2 ^ 63) \<le> x \<and> x < 2 ^ 63 \<longrightarrow>
      SizeSuffix_UnmarshalJSON impl y (SizeSuffix_Marshal x) = (x, None))"
  by (simp add: SizeSuffix_Marshal_def UnmarshalJSON_cases)

text \<open>Marshalling 1024 and reading it back.\<close>

theorem Marshal_is_number_witness:
  "SizeSuffix_Marshal 1024 = JSONInteger 1024 \<and> - (2 ^ 63) \<le> (1024 :: int) \<and>
   (1024 :: int) < 2 ^ 63 \<and>
   SizeSuffix_UnmarshalJSON (\<lambda>_. 0) 7 (SizeSuffix_Marshal 1024) = (1024, None)"
proof -
  have h: "- (2 ^ 63) \<le> (1024 :: int) \<and> (1024 :: int) < 2 ^ 63" by simp
  from Marshal_is_number[of 1024 "[]" "\<lambda>_. 0" 7] h show ?thesis by blast
qed

text \<open>
  As stated, C9 fails: 1024 is marshalled as the number 1024, not as the string of
  \<open>1Ki\<close> or \<open>1K\<close>, and \<open>-1\<close> as the number \<open>-1\<close>, not as the string \<open>off\<close>.
\<close>

theorem Marshal_not_string:
  "SizeSuffix_Marshal 1024 = JSONInteger 1024 \<and> SizeSuffix_String 1024 = ''1Ki'' \<and>
   SizeSuffix_Marshal 1024 \<noteq> JSONString ''1Ki'' \<and> SizeSuffix_Marshal 1024 \<noteq> JSONString ''1K'' \<and>
   SizeSuffix_Marshal (- 1) = JSONInteger (- 1) \<and> SizeSuffix_Marshal (- 1) \<noteq> JSONString ''off''"
  by (simp add: SizeSuffix_Marshal_def string_defs)

section \<open>The two Set implementations\<close>

text \<open>
  C10. On every input that contains neither \<open>i\<close> nor \<open>I\<close>, the Set of
  src/fs/sizesuffix.go and the Set of src/unnamed/part\_000 return the same error or
  store the same value.
\<close>

theorem Set_agrees_without_i:
  assumes "CHR ''i'' \<notin> set s" and "CHR ''I'' \<notin> set s"
  shows "SizeSuffix_Set impl x s = SizeSuffix_Set_part000 impl x s"
proof (cases "s = []")
  case True
  then show ?thesis by (simp add: SizeSuffix_Set_def SizeSuffix_Set_part000_def)
next
  case False
  have "Set_switch s = Set_switch_part000 s" by (rule Set_switch_no_i[OF False assms])
  then show ?thesis by (simp add: SizeSuffix_Set_def SizeSuffix_Set_part000_def)
qed

text \<open>The input \<open>1K\<close>, which stores 1024 in both.\<close>

theorem Set_agrees_without_i_witness:
  "CHR ''i'' \<notin> set ''1K'' \<and> CHR ''I'' \<notin> set ''1K'' \<and>
   SizeSuffix_Set (\<lambda>_. 0) 0 ''1K'' = SizeSuffix_Set_part000 (\<lambda>_. 0) 0 ''1K'' \<and>
   SizeSuffix_Set (\<lambda>_. 0) 0 ''1K'' = (1024, None)"
proof -
  have a: "CHR ''i'' \<notin> set ''1K''" and b: "CHR ''I'' \<notin> set ''1K''" by simp_all
  have "SizeSuffix_Set (\<lambda>_. 0) 0 ''1K'' = (1024, None)"
    by (simp add: set_defs eval_defs)
  with a b Set_agrees_without_i[OF a b, of "\<lambda>_. 0" 0] show ?thesis by simp
qed

end
